theory Spec2Isabelle
  imports Main
begin

section \<open>Wire constants and error taxonomy\<close>

text \<open>
  The macros at the head of \<^verbatim>\<open>redisclient.h\<close>. A \<^verbatim>\<open>std::string\<close> is a sequence of
  bytes, here a \<^typ>\<open>string\<close>.
\<close>

definition REDIS_LBR :: string where
  "REDIS_LBR = [CHR 0x0D, CHR 0x0A]"

definition REDIS_STATUS_REPLY_OK :: string where
  "REDIS_STATUS_REPLY_OK = ''OK''"

definition REDIS_PREFIX_STATUS_REPLY_ERROR :: string where
  "REDIS_PREFIX_STATUS_REPLY_ERROR = ''-ERR ''"

definition REDIS_PREFIX_STATUS_REPLY_VALUE :: char where
  "REDIS_PREFIX_STATUS_REPLY_VALUE = CHR ''+''"

definition REDIS_PREFIX_SINGLE_BULK_REPLY :: char where
  "REDIS_PREFIX_SINGLE_BULK_REPLY = CHR ''$''"

definition REDIS_PREFIX_MULTI_BULK_REPLY :: char where
  "REDIS_PREFIX_MULTI_BULK_REPLY = CHR ''*''"

definition REDIS_PREFIX_INT_REPLY :: char where
  "REDIS_PREFIX_INT_REPLY = CHR '':''"

text \<open>
  Everything the code can throw. The first four are the classes derived from
  \<^verbatim>\<open>redis_error\<close>; \<open>runtime_error\<close> is \<^verbatim>\<open>std::runtime_error\<close>, \<open>bad_lexical_cast\<close> is
  \<^verbatim>\<open>boost::bad_lexical_cast\<close>, \<open>length_error\<close> and \<open>bad_alloc\<close> come from the standard
  library. \<open>assertion_failure\<close> is an \<^verbatim>\<open>assert\<close> that does not hold and
  \<open>undefined_behaviour\<close> marks the places where C++ gives the program no meaning (an index
  past the end of a vector, signed overflow).
\<close>

datatype error =
    connection_error string
  | protocol_error string
  | key_error string
  | value_error string
  | runtime_error string
  | bad_lexical_cast
  | length_error
  | bad_alloc
  | out_of_range
  | assertion_failure
  | undefined_behaviour

fun is_protocol_error :: "error + 'a \<Rightarrow> bool" where
  "is_protocol_error (Inl (protocol_error m)) = True"
| "is_protocol_error r = False"

section \<open>Numbers as text\<close>

text \<open>
  \<open>dec\<close> is what \<^verbatim>\<open>oss << n\<close> writes for a \<^verbatim>\<open>size_t\<close>: the decimal digits, most
  significant first, no padding.
\<close>

definition digit_char :: "nat \<Rightarrow> char" where
  "digit_char d = ''0123456789'' ! d"

definition is_digit :: "char \<Rightarrow> bool" where
  "is_digit c = (c \<in> set ''0123456789'')"

definition digit_val :: "char \<Rightarrow> nat" where
  "digit_val c = of_char c - 48"

fun dec :: "nat \<Rightarrow> string" where
  "dec n = (if n < 10 then [digit_char n] else dec (n div 10) @ [digit_char (n mod 10)])"

declare dec.simps [simp del]

definition digits_value :: "string \<Rightarrow> nat" where
  "digits_value ds = foldl (\<lambda>acc c. 10 * acc + digit_val c) 0 ds"

text \<open>\<^verbatim>\<open>int_type\<close> is \<^verbatim>\<open>long\<close>, taken as 64 bits wide (LP64).\<close>

definition LONG_MAX :: int where
  "LONG_MAX = 2 ^ 63 - 1"

definition LONG_MIN :: int where
  "LONG_MIN = - (2 ^ 63)"

text \<open>
  \<^verbatim>\<open>boost::lexical_cast<int_type>(s)\<close>: an optional sign, then one or more decimal digits
  and nothing else; a value outside \<^verbatim>\<open>long\<close> is refused. Every refusal throws
  \<^verbatim>\<open>boost::bad_lexical_cast\<close>.
\<close>

definition lexical_cast_int_type :: "string \<Rightarrow> error + int" where
  "lexical_cast_int_type s =
     (case s of
        [] \<Rightarrow> Inl bad_lexical_cast
      | c # cs \<Rightarrow>
          (let ds = (if c = CHR ''-'' \<or> c = CHR ''+'' then cs else s);
               v = int (digits_value ds)
           in if ds = [] \<or> \<not> list_all is_digit ds then Inl bad_lexical_cast
              else if c = CHR ''-'' then (if - v < LONG_MIN then Inl bad_lexical_cast else Inr (- v))
              else (if LONG_MAX < v then Inl bad_lexical_cast else Inr v)))"

text \<open>\<^verbatim>\<open>boost::lexical_cast<std::string>\<close> of an \<^verbatim>\<open>int_type\<close> and of a \<^verbatim>\<open>size_t\<close>.\<close>

definition lexical_cast_string :: "int \<Rightarrow> string" where
  "lexical_cast_string i = (if i < 0 then CHR ''-'' # dec (nat (- i)) else dec (nat i))"

section \<open>The Command Encoder\<close>

text \<open>The member \<^verbatim>\<open>lines_\<close> is the field \<open>lines\<close>: a name cannot end in an underscore here.\<close>

record makecmd =
  lines :: "string list"

definition makecmd_append :: "makecmd \<Rightarrow> string \<Rightarrow> makecmd" where
  "makecmd_append m param = m\<lparr>lines := lines m @ [param]\<rparr>"

definition makecmd :: "string \<Rightarrow> makecmd" where
  "makecmd cmd_name = makecmd_append \<lparr>lines = []\<rparr> cmd_name"

text \<open>The three \<^verbatim>\<open>operator<<\<close> overloads used below: a string, an integer, a string vector.\<close>

definition shl :: "makecmd \<Rightarrow> string \<Rightarrow> makecmd" where
  "shl m datum = makecmd_append m datum"

definition shl_int :: "makecmd \<Rightarrow> int \<Rightarrow> makecmd" where
  "shl_int m datum = makecmd_append m (lexical_cast_string datum)"

definition shl_size :: "makecmd \<Rightarrow> nat \<Rightarrow> makecmd" where
  "shl_size m datum = makecmd_append m (dec datum)"

definition shl_vector :: "makecmd \<Rightarrow> string list \<Rightarrow> makecmd" where
  "shl_vector m data = m\<lparr>lines := lines m @ data\<rparr>"

text \<open>
  \<^verbatim>\<open>operator std::string\<close>: the header, then the loop over \<^verbatim>\<open>i\<close> appending to the
  output stream \<^verbatim>\<open>oss\<close>.
\<close>

function to_string_loop :: "string list \<Rightarrow> nat \<Rightarrow> nat \<Rightarrow> string \<Rightarrow> string" where
  "to_string_loop ls n i oss =
     (if i < n
      then to_string_loop ls n (i + 1)
             (oss @ [REDIS_PREFIX_SINGLE_BULK_REPLY] @ dec (length (ls ! i)) @ REDIS_LBR
                  @ (ls ! i) @ REDIS_LBR)
      else oss)"
  by pat_completeness auto
termination
  by (relation "measure (\<lambda>(ls, n, i, oss). n - i)") auto

declare to_string_loop.simps [simp del]

definition to_string :: "makecmd \<Rightarrow> string" where
  "to_string m =
     (let n = length (lines m)
      in to_string_loop (lines m) n 0 ([REDIS_PREFIX_MULTI_BULK_REPLY] @ dec n @ REDIS_LBR))"

section \<open>Sockets\<close>

text \<open>
  A blocking TCP socket, seen from the client. \<open>rcvq\<close> is what the peer delivers: each
  element is the data one \<^verbatim>\<open>recv\<close> finds waiting, in order; the end of the list, or an
  empty element, is the peer closing (\<^verbatim>\<open>recv\<close> returns 0). How the peer's bytes are cut
  into elements is not under the client's control, so statements about the readers
  quantify over every cutting. \<open>sent\<close> collects the bytes written so far. \<open>wr_err\<close> is
  \<open>Some msg\<close> when writing fails, \<open>msg\<close> being the text of \<^verbatim>\<open>strerror(errno)\<close>.
  An interrupted call (\<^verbatim>\<open>EINTR\<close>) is retried by the code and is invisible here; other
  failures of \<^verbatim>\<open>recv\<close> are outside the model, and so is a peer that neither sends nor
  closes: every \<^verbatim>\<open>recv\<close> returns.
\<close>

record sockstate =
  rcvq :: "string list"
  sent :: string
  wr_err :: "string option"

text \<open>The network: the state of every socket, by descriptor.\<close>

type_synonym net = "int \<Rightarrow> sockstate"

text \<open>\<^verbatim>\<open>recv(socket, buffer, len, MSG_PEEK)\<close>: the bytes copied, the queue untouched.\<close>

definition recv_peek :: "nat \<Rightarrow> string list \<Rightarrow> string" where
  "recv_peek len q = (case q of [] \<Rightarrow> [] | s # rest \<Rightarrow> take len s)"

text \<open>\<^verbatim>\<open>recv(socket, buffer, len, 0)\<close>: the bytes copied and the queue without them.\<close>

definition recv :: "nat \<Rightarrow> string list \<Rightarrow> string \<times> string list" where
  "recv len q =
     (case q of
        [] \<Rightarrow> ([], [])
      | s # rest \<Rightarrow>
          if s = [] then ([], q)
          else if len < length s then (take len s, drop len s # rest)
          else (s, rest))"

text \<open>The bytes a queue delivers before the peer closes.\<close>

definition delivered :: "string list \<Rightarrow> string" where
  "delivered q = concat (takeWhile (\<lambda>s. s \<noteq> []) q)"

text \<open>Computations on the network that may throw: the state is kept when they do.\<close>

type_synonym 'a io = "net \<Rightarrow> (error + 'a) \<times> net"

definition io_return :: "'a \<Rightarrow> 'a io" where
  "io_return x n = (Inr x, n)"

definition io_throw :: "error \<Rightarrow> 'a io" where
  "io_throw e n = (Inl e, n)"

definition io_bind :: "'a io \<Rightarrow> ('a \<Rightarrow> 'b io) \<Rightarrow> 'b io" where
  "io_bind m f n = (case m n of (Inl e, n') \<Rightarrow> (Inl e, n') | (Inr x, n') \<Rightarrow> f x n')"

definition io_lift :: "error + 'a \<Rightarrow> 'a io" where
  "io_lift r n = (r, n)"

text \<open>
  Running a reader of the receive queue on the socket \<open>fd\<close>: \<open>set_rcvq n fd q\<close> is the
  network \<open>n\<close> where the queue of \<open>fd\<close> has become \<open>q\<close> and nothing else has changed.
\<close>

definition set_rcvq :: "net \<Rightarrow> int \<Rightarrow> string list \<Rightarrow> net" where
  "set_rcvq n fd q = n(fd := (n fd)\<lparr>rcvq := q\<rparr>)"

definition on_rcvq :: "int \<Rightarrow> (string list \<Rightarrow> (error + 'a) \<times> string list) \<Rightarrow> 'a io" where
  "on_rcvq fd rd n = (case rd (rcvq (n fd)) of (r, q') \<Rightarrow> (r, set_rcvq n fd q'))"

section \<open>The Exact Reader\<close>

text \<open>
  The loop of \<^verbatim>\<open>read_n\<close>: \<open>buffer\<close> holds the \<^verbatim>\<open>bytes_read\<close> bytes received so far.
\<close>

function read_n_loop :: "nat \<Rightarrow> string \<Rightarrow> string list \<Rightarrow> (error + string) \<times> string list" where
  "read_n_loop n buffer q =
     (if length buffer \<noteq> n
      then (if fst (recv (n - length buffer) q) = []
            then (Inl (connection_error ''connection was closed''), snd (recv (n - length buffer) q))
            else read_n_loop n (buffer @ fst (recv (n - length buffer) q))
                   (snd (recv (n - length buffer) q)))
      else (Inr buffer, q))"
  by pat_completeness auto
termination
proof (relation "measure (\<lambda>(n, buffer, q). n - length buffer)")
  show "wf (measure (\<lambda>(n, buffer, q). n - length buffer))"
    by simp
next
  fix n :: nat and buffer :: string and q :: "string list"
  assume ne: "fst (recv (n - length buffer) q) \<noteq> []"
  have "length (fst (recv (n - length buffer) q)) \<le> n - length buffer"
    by (simp add: recv_def split: list.split)
  moreover from ne have "0 < length (fst (recv (n - length buffer) q))"
    by simp
  ultimately have "n - (length buffer + length (fst (recv (n - length buffer) q))) < n - length buffer"
    by linarith
  then show "((n, buffer @ fst (recv (n - length buffer) q), snd (recv (n - length buffer) q)),
              (n, buffer, q)) \<in> measure (\<lambda>(n, buffer, q). n - length buffer)"
    by simp
qed

declare read_n_loop.simps [simp del]

text \<open>
  \<^verbatim>\<open>read_n(socket, n)\<close> on the socket's queue. \<^verbatim>\<open>new char[n + 1]\<close> cannot be allocated
  for \<open>n < -1\<close>, for \<open>n = -1\<close> the write to \<^verbatim>\<open>buffer[n]\<close> is out of bounds, and for the
  largest \<^verbatim>\<open>ssize_t\<close> the sum \<^verbatim>\<open>n + 1\<close> overflows. For the other \<open>n\<close> the allocation is
  taken to succeed.
\<close>

definition read_n_q :: "int \<Rightarrow> string list \<Rightarrow> (error + string) \<times> string list" where
  "read_n_q n q =
     (if n < -1 then (Inl bad_alloc, q)
      else if n = -1 then (Inl undefined_behaviour, q)
      else if LONG_MAX \<le> n then (Inl undefined_behaviour, q)
      else read_n_loop (nat n) [] q)"

definition read_n :: "int \<Rightarrow> int \<Rightarrow> string io" where
  "read_n socket n = on_rcvq socket (read_n_q n)"

section \<open>The Line Reader\<close>

definition buffer_size :: nat where
  "buffer_size = 64"

text \<open>\<^verbatim>\<open>memchr(buffer, c, len)\<close>: the offset of the first \<open>c\<close>, if there is one.\<close>

fun memchr :: "string \<Rightarrow> char \<Rightarrow> nat option" where
  "memchr [] c = None"
| "memchr (x # xs) c = (if x = c then Some 0 else map_option Suc (memchr xs c))"

text \<open>\<^verbatim>\<open>str.find_last_not_of(ws)\<close>, \<open>None\<close> for \<^verbatim>\<open>npos\<close>.\<close>

fun find_last_not_of :: "string \<Rightarrow> string \<Rightarrow> nat option" where
  "find_last_not_of [] ws = None"
| "find_last_not_of (x # xs) ws =
     (case find_last_not_of xs ws of
        Some pos \<Rightarrow> Some (Suc pos)
      | None \<Rightarrow> if x \<in> set ws then None else Some 0)"

text \<open>\<^verbatim>\<open>rtrim\<close>: \<^verbatim>\<open>str.erase(pos + 1)\<close>, where \<^verbatim>\<open>npos + 1\<close> wraps around to 0.\<close>

definition rtrim :: "string \<Rightarrow> string \<Rightarrow> string" where
  "rtrim str ws = (case find_last_not_of str ws of None \<Rightarrow> [] | Some pos \<Rightarrow> take (pos + 1) str)"

text \<open>
  The loop of \<^verbatim>\<open>read_line\<close>. The variable \<^verbatim>\<open>total_bytes_read\<close> is passed on as the code
  leaves it: no statement of the loop assigns to it.
\<close>

function read_line_loop ::
  "int \<Rightarrow> int \<Rightarrow> bool \<Rightarrow> string \<Rightarrow> string list \<Rightarrow> (error + string) \<times> string list" where
  "read_line_loop max_size total_bytes_read found_delimiter oss q =
     (if total_bytes_read < max_size \<and> \<not> found_delimiter
      then (if recv_peek buffer_size q = []
            then (Inl (connection_error ''connection was closed''), q)
            else (case memchr (recv_peek buffer_size q) (CHR 0x0A) of
                    Some eol \<Rightarrow>
                      read_line_loop max_size total_bytes_read True
                        (oss @ take (eol + 1) (recv_peek buffer_size q))
                        (snd (recv (eol + 1) q))
                  | None \<Rightarrow>
                      read_line_loop max_size total_bytes_read False
                        (oss @ recv_peek buffer_size q)
                        (snd (recv (length (recv_peek buffer_size q)) q))))
      else (Inr oss, q))"
  by pat_completeness auto
termination
  by (relation "measure (\<lambda>(m, t, found, oss, q). if found then 0 else 1 + length (concat q))")
     (auto simp: recv_def recv_peek_def buffer_size_def split: list.splits if_splits)

declare read_line_loop.simps [simp del]

definition read_line_q :: "int \<Rightarrow> string list \<Rightarrow> (error + string) \<times> string list" where
  "read_line_q max_size q =
     (case read_line_loop max_size 0 False [] q of
        (Inl e, q') \<Rightarrow> (Inl e, q')
      | (Inr line, q') \<Rightarrow> (Inr (rtrim line REDIS_LBR), q'))"

definition read_line :: "int \<Rightarrow> int \<Rightarrow> string io" where
  "read_line socket max_size =
     (if socket \<le> 0 \<or> max_size \<le> 0 then io_throw assertion_failure
      else on_rcvq socket (read_line_q max_size))"

section \<open>Sending and the Reply Decoder\<close>

text \<open>
  Modelled from the spec: \<^verbatim>\<open>anetWrite\<close> is declared in \<^verbatim>\<open>anet.h\<close>, which is not among
  the sources. A write either puts the whole message on the wire and returns its length,
  or fails and returns -1 (the spec's "write failure").
\<close>

definition add_sent :: "net \<Rightarrow> int \<Rightarrow> string \<Rightarrow> net" where
  "add_sent n fd buf = n(fd := (n fd)\<lparr>sent := sent (n fd) @ buf\<rparr>)"

definition anetWrite :: "int \<Rightarrow> string \<Rightarrow> net \<Rightarrow> int \<times> net" where
  "anetWrite fd buf n =
     (case wr_err (n fd) of
        Some msg \<Rightarrow> (-1, n)
      | None \<Rightarrow> (int (length buf), add_sent n fd buf))"

text \<open>\<^verbatim>\<open>send_\<close>.\<close>

definition send :: "int \<Rightarrow> string \<Rightarrow> unit io" where
  "send socket msg n =
     (case anetWrite socket msg n of
        (r, n') \<Rightarrow>
          if r = -1 then (Inl (connection_error (case wr_err (n socket) of Some e \<Rightarrow> e | None \<Rightarrow> [])), n')
          else (Inr (), n'))"

text \<open>\<^verbatim>\<open>line[0]\<close>: the terminating zero byte when the string is empty.\<close>

definition string_front :: "string \<Rightarrow> char" where
  "string_front line = (case line of [] \<Rightarrow> CHR 0x00 | c # cs \<Rightarrow> c)"

text \<open>\<^verbatim>\<open>recv_single_line_reply_\<close>; \<^verbatim>\<open>read_line(socket)\<close> has the default budget 2048.\<close>

definition recv_single_line_reply :: "int \<Rightarrow> string io" where
  "recv_single_line_reply socket =
     io_bind (read_line socket 2048) (\<lambda>line.
       if line = [] then io_throw (protocol_error ''empty single line reply'')
       else if take (length REDIS_PREFIX_STATUS_REPLY_ERROR) line = REDIS_PREFIX_STATUS_REPLY_ERROR
       then io_throw (protocol_error
              (if drop (length REDIS_PREFIX_STATUS_REPLY_ERROR) line = [] then ''unknown error''
               else drop (length REDIS_PREFIX_STATUS_REPLY_ERROR) line))
       else if string_front line \<noteq> REDIS_PREFIX_STATUS_REPLY_VALUE
       then io_throw (protocol_error ''unexpected prefix for status reply'')
       else io_return (tl line))"

text \<open>\<^verbatim>\<open>recv_ok_reply_\<close>.\<close>

definition recv_ok_reply :: "int \<Rightarrow> unit io" where
  "recv_ok_reply socket =
     io_bind (recv_single_line_reply socket) (\<lambda>reply.
       if reply \<noteq> REDIS_STATUS_REPLY_OK then io_throw (protocol_error ''expected OK response'')
       else io_return ())"

text \<open>
  \<^verbatim>\<open>recv_bulk_reply_(int socket, char prefix)\<close>, the header line of a bulk or multi-bulk
  reply. \<^verbatim>\<open>line.substr(1)\<close> throws \<^verbatim>\<open>std::out_of_range\<close> on an empty line, reached only
  when \<open>prefix\<close> is the zero byte.
\<close>

definition recv_bulk_reply_prefix :: "int \<Rightarrow> char \<Rightarrow> int io" where
  "recv_bulk_reply_prefix socket prefix =
     io_bind (read_line socket 2048) (\<lambda>line.
       if string_front line \<noteq> prefix
       then io_throw (protocol_error ''unexpected prefix for bulk reply'')
       else if line = [] then io_throw out_of_range
       else io_lift (lexical_cast_int_type (tl line)))"

definition missing_value :: string where
  "missing_value = ''**nonexistent-key**''"

text \<open>
  The checks \<^verbatim>\<open>recv_bulk_reply_(int socket)\<close> makes on the bytes \<open>data\<close> it got from the
  Exact Reader, and the \<^verbatim>\<open>erase\<close> of the last two. On a single byte
  \<^verbatim>\<open>data.erase(data.size() - 2)\<close> starts past the end and throws \<^verbatim>\<open>std::out_of_range\<close>;
  the decoder never gets there, a declared length of -1 being answered before.
\<close>

definition bulk_reply_data :: "int \<Rightarrow> string \<Rightarrow> error + string" where
  "bulk_reply_data real_length data =
     (if data = [] then Inl (protocol_error ''invalid bulk reply data; empty'')
      else if int (length data) \<noteq> real_length
      then Inl (protocol_error ''invalid bulk reply data; data of unexpected length'')
      else if length data < 2 then Inl out_of_range
      else Inr (take (length data - 2) data))"

text \<open>
  \<^verbatim>\<open>recv_bulk_reply_(int socket)\<close>. The sum \<^verbatim>\<open>length + 2\<close> is computed in \<^verbatim>\<open>long\<close> and
  overflows for the two largest lengths.
\<close>

definition recv_bulk_reply :: "int \<Rightarrow> string io" where
  "recv_bulk_reply socket =
     io_bind (recv_bulk_reply_prefix socket REDIS_PREFIX_SINGLE_BULK_REPLY) (\<lambda>len.
       if len = -1 then io_return missing_value
       else if LONG_MAX < len + 2 then io_throw undefined_behaviour
       else io_bind (read_n socket (len + 2)) (\<lambda>data. io_lift (bulk_reply_data (len + 2) data)))"

text \<open>
  The loop shared by both \<^verbatim>\<open>recv_multi_bulk_reply_\<close> overloads; \<open>put\<close> is
  \<^verbatim>\<open>push_back\<close> on a vector or \<^verbatim>\<open>insert\<close> on a set. The container \<open>out\<close> is a reference
  parameter: what was stored before a throw stays stored.
\<close>

function recv_multi_bulk_loop ::
  "('c \<Rightarrow> string \<Rightarrow> 'c) \<Rightarrow> int \<Rightarrow> int \<Rightarrow> int \<Rightarrow> 'c \<Rightarrow> net \<Rightarrow> (error + unit) \<times> 'c \<times> net" where
  "recv_multi_bulk_loop put socket len i out n =
     (if i < len
      then (case recv_bulk_reply socket n of
              (Inl e, n') \<Rightarrow> (Inl e, out, n')
            | (Inr d, n') \<Rightarrow> recv_multi_bulk_loop put socket len (i + 1) (put out d) n')
      else (Inr (), out, n))"
  by pat_completeness auto
termination
  by (relation "measure (\<lambda>(put, socket, len, i, out, n). nat (len - i))") auto

declare recv_multi_bulk_loop.simps [simp del]

text \<open>
  \<^verbatim>\<open>recv_multi_bulk_reply_(int, string_vector &)\<close>. The call
  \<^verbatim>\<open>out.reserve(out.size() + length)\<close> computes its argument in \<^verbatim>\<open>size_t\<close>, that is modulo
  \<open>2 ^ 64\<close>, and throws \<^verbatim>\<open>std::length_error\<close> when it exceeds \<^verbatim>\<open>out.max_size()\<close>. That
  bound belongs to the standard library in use and is the parameter \<open>max_size\<close>. Below
  it the allocation is taken to succeed.
\<close>

definition recv_multi_bulk_reply ::
  "nat \<Rightarrow> int \<Rightarrow> string list \<Rightarrow> net \<Rightarrow> (error + int) \<times> string list \<times> net" where
  "recv_multi_bulk_reply max_size socket out n =
     (case recv_bulk_reply_prefix socket REDIS_PREFIX_MULTI_BULK_REPLY n of
        (Inl e, n') \<Rightarrow> (Inl e, out, n')
      | (Inr len, n') \<Rightarrow>
          if len = -1 then (Inl (key_error ''no such key''), out, n')
          else if max_size < nat ((int (length out) + len) mod 2 ^ 64)
          then (Inl length_error, out, n')
          else (case recv_multi_bulk_loop (\<lambda>v d. v @ [d]) socket len 0 out n' of
                  (Inl e, out', n'') \<Rightarrow> (Inl e, out', n'')
                | (Inr u, out', n'') \<Rightarrow> (Inr len, out', n'')))"

text \<open>\<^verbatim>\<open>recv_multi_bulk_reply_(int, string_set &)\<close>.\<close>

definition recv_multi_bulk_reply_set ::
  "int \<Rightarrow> string set \<Rightarrow> net \<Rightarrow> (error + int) \<times> string set \<times> net" where
  "recv_multi_bulk_reply_set socket out n =
     (case recv_bulk_reply_prefix socket REDIS_PREFIX_MULTI_BULK_REPLY n of
        (Inl e, n') \<Rightarrow> (Inl e, out, n')
      | (Inr len, n') \<Rightarrow>
          if len = -1 then (Inl (key_error ''no such key''), out, n')
          else (case recv_multi_bulk_loop (\<lambda>v d. insert d v) socket len 0 out n' of
                  (Inl e, out', n'') \<Rightarrow> (Inl e, out', n'')
                | (Inr u, out', n'') \<Rightarrow> (Inr len, out', n'')))"

text \<open>
  What a server writes for one bulk reply, after section 6 of the specification:
  \<open>$<len>\<close>, CR, LF, the bytes, CR, LF for a value and \<open>$-1\<close>, CR, LF for a missing one
  (\<open>None\<close>); and what the client makes of it. These describe the input of the
  decoders in the statements below; no decoder is defined through them.
\<close>

definition bulk_reply_wire :: "string option \<Rightarrow> string" where
  "bulk_reply_wire v =
     (case v of
        None \<Rightarrow> ''$-1'' @ [CHR 0x0D, CHR 0x0A]
      | Some p \<Rightarrow> CHR ''$'' # dec (length p) @ [CHR 0x0D, CHR 0x0A] @ p @ [CHR 0x0D, CHR 0x0A])"

definition bulk_reply_value :: "string option \<Rightarrow> string" where
  "bulk_reply_value v = (case v of None \<Rightarrow> missing_value | Some p \<Rightarrow> p)"

definition bulk_reply_fits :: "string option \<Rightarrow> bool" where
  "bulk_reply_fits v = (case v of None \<Rightarrow> True | Some p \<Rightarrow> int (length p) + 2 < LONG_MAX)"

text \<open>\<^verbatim>\<open>recv_int_reply_\<close> and \<^verbatim>\<open>recv_int_ok_reply_\<close>.\<close>

definition recv_int_reply :: "int \<Rightarrow> int io" where
  "recv_int_reply socket =
     io_bind (read_line socket 2048) (\<lambda>line.
       if line = [] then io_throw (protocol_error ''invalid integer reply; empty'')
       else if string_front line \<noteq> REDIS_PREFIX_INT_REPLY
       then io_throw (protocol_error ''unexpected prefix for integer reply'')
       else io_lift (lexical_cast_int_type (tl line)))"

definition recv_int_ok_reply :: "int \<Rightarrow> unit io" where
  "recv_int_ok_reply socket =
     io_bind (recv_int_reply socket) (\<lambda>r.
       if r \<noteq> 1 then io_throw (protocol_error ''expecting int reply of 1'')
       else io_return ())"

text \<open>
  The errors a reply decoder can let out, for the statements below: every error but a
  \<^verbatim>\<open>std::runtime_error\<close> and but the protocol error of the length check in
  \<^verbatim>\<open>recv_bulk_reply_(int socket)\<close>.
\<close>

fun decoder_error :: "error \<Rightarrow> bool" where
  "decoder_error (runtime_error m) = False"
| "decoder_error (protocol_error m) =
     (m \<noteq> ''invalid bulk reply data; data of unexpected length'')"
| "decoder_error e = True"

section \<open>The Connection Set and the Router\<close>

text \<open>\<^verbatim>\<open>port\<close> is a \<^verbatim>\<open>uint16_t\<close>; \<open>socket\<close> is the descriptor of the open connection.\<close>

record connection_data =
  host :: string
  port :: nat
  dbindex :: int
  socket :: int

text \<open>
  The client: the members \<^verbatim>\<open>connections_\<close> and \<^verbatim>\<open>hasher_\<close>. The hash strategy is
  the template parameter \<^verbatim>\<open>CONSISTENT_HASHER\<close>: any function from the key and the
  connection sequence to a \<^verbatim>\<open>size_t\<close>.
\<close>

record base_client =
  connections :: "connection_data list"
  hasher :: "string \<Rightarrow> connection_data list \<Rightarrow> nat"

text \<open>
  \<^verbatim>\<open>default_hasher\<close>. The function \<^verbatim>\<open>boost::hash<std::string>\<close> belongs to the Boost
  library and is the parameter \<open>boost_hash\<close>.
\<close>

definition default_hasher :: "(string \<Rightarrow> nat) \<Rightarrow> string \<Rightarrow> connection_data list \<Rightarrow> nat" where
  "default_hasher boost_hash key cons = boost_hash key mod length cons"

text \<open>
  \<^verbatim>\<open>get_socket(const string_type & key)\<close>. Indexing \<^verbatim>\<open>connections_\<close> at or past its size
  has no defined behaviour.
\<close>

definition get_socket :: "base_client \<Rightarrow> string \<Rightarrow> error + int" where
  "get_socket c key =
     (let con_count = length (connections c)
      in if con_count = 1 then Inr (socket (connections c ! 0))
         else (let idx = hasher c key (connections c)
               in if idx < con_count then Inr (socket (connections c ! idx))
                  else Inl undefined_behaviour))"

text \<open>\<^verbatim>\<open>get_socket(const string_vector & keys)\<close>: the loop, then the function.\<close>

function get_socket_keys_loop :: "base_client \<Rightarrow> string list \<Rightarrow> nat \<Rightarrow> int \<Rightarrow> error + int" where
  "get_socket_keys_loop c keys i sock =
     (if i < length keys
      then (case get_socket c (keys ! i) of
              Inl e \<Rightarrow> Inl e
            | Inr cur_socket \<Rightarrow>
                if i > 0 \<and> sock \<noteq> cur_socket
                then Inl (runtime_error ''not possible in cluster mode'')
                else get_socket_keys_loop c keys (i + 1) cur_socket)
      else Inr sock)"
  by pat_completeness auto
termination
  by (relation "measure (\<lambda>(c, keys, i, sock). length keys - i)") auto

declare get_socket_keys_loop.simps [simp del]

definition get_socket_keys :: "base_client \<Rightarrow> string list \<Rightarrow> error + int" where
  "get_socket_keys c keys =
     (if keys = [] then Inl assertion_failure else get_socket_keys_loop c keys 0 (-1))"

section \<open>Whole-client operations\<close>

definition auth :: "base_client \<Rightarrow> string \<Rightarrow> unit io" where
  "auth c pass =
     (if length (connections c) > 1
      then io_throw (runtime_error ''feature is not available in cluster mode'')
      else if connections c = [] then io_throw undefined_behaviour
      else io_bind (send (socket (connections c ! 0)) (to_string (shl (makecmd ''AUTH'') pass)))
             (\<lambda>u. recv_ok_reply (socket (connections c ! 0))))"

text \<open>\<^verbatim>\<open>select(int_type dbindex)\<close>.\<close>

definition select :: "base_client \<Rightarrow> int \<Rightarrow> unit io" where
  "select c db =
     (if length (connections c) > 1
      then io_throw (runtime_error ''feature is not available in cluster mode'')
      else if connections c = [] then io_throw undefined_behaviour
      else io_bind (send (socket (connections c ! 0)) (to_string (shl_int (makecmd ''SELECT'') db)))
             (\<lambda>u. recv_ok_reply (socket (connections c ! 0))))"

text \<open>\<^verbatim>\<open>flushall()\<close>.\<close>

definition flushall :: "base_client \<Rightarrow> unit io" where
  "flushall c =
     (if length (connections c) > 1
      then io_throw (runtime_error ''feature is not available in cluster mode'')
      else if connections c = [] then io_throw undefined_behaviour
      else io_bind (send (socket (connections c ! 0)) (to_string (makecmd ''FLUSHALL'')))
             (\<lambda>u. recv_ok_reply (socket (connections c ! 0))))"

text \<open>
  \<^verbatim>\<open>randomkey\<close>. The pseudo-random draw \<^verbatim>\<open>die()\<close> is the argument \<open>die\<close>;
  \<^verbatim>\<open>boost::uniform_int<>(min, max)\<close> produces the integers of the closed range from
  \<open>min\<close> to \<open>max\<close>, so \<open>randomkey_draws\<close> are the values \<open>die\<close> can take.
\<close>

definition randomkey_draws :: "base_client \<Rightarrow> int set" where
  "randomkey_draws c = {0 .. int (length (connections c))}"

definition randomkey_socket :: "base_client \<Rightarrow> int \<Rightarrow> error + int" where
  "randomkey_socket c die =
     (if connections c = [] then Inl undefined_behaviour
      else if length (connections c) > 1
      then (if 0 \<le> die \<and> die < int (length (connections c))
            then Inr (socket (connections c ! nat die))
            else Inl undefined_behaviour)
      else Inr (socket (connections c ! 0)))"

definition randomkey :: "base_client \<Rightarrow> int \<Rightarrow> string io" where
  "randomkey c die =
     io_bind (io_lift (randomkey_socket c die)) (\<lambda>sock.
       io_bind (send sock (to_string (makecmd ''RANDOMKEY''))) (\<lambda>u. recv_bulk_reply sock))"

section \<open>Multi-key operations\<close>

text \<open>
  Each operation builds its command with \<^verbatim>\<open>makecmd\<close> and \<^verbatim>\<open>operator<<\<close>; the command
  of each is named here, and the operations follow.
\<close>

definition rename_cmd :: "string \<Rightarrow> string \<Rightarrow> makecmd" where
  "rename_cmd old_name new_name = shl (shl (makecmd ''RENAME'') old_name) new_name"

definition renamenx_cmd :: "string \<Rightarrow> string \<Rightarrow> makecmd" where
  "renamenx_cmd old_name new_name = shl (shl (makecmd ''RENAMENX'') old_name) new_name"

definition smove_cmd :: "string \<Rightarrow> string \<Rightarrow> string \<Rightarrow> makecmd" where
  "smove_cmd srckey dstkey member = shl (shl (shl (makecmd ''SMOVE'') srckey) dstkey) member"

text \<open>The loop of \<^verbatim>\<open>blpop\<close> appending the keys one by one.\<close>

definition blpop_cmd :: "string list \<Rightarrow> int \<Rightarrow> makecmd" where
  "blpop_cmd keys timeout = shl_int (foldl shl (makecmd ''BLPOP'') keys) timeout"

definition set_cmd :: "string \<Rightarrow> string list \<Rightarrow> makecmd" where
  "set_cmd name keys = shl_vector (makecmd name) keys"

definition store_cmd :: "string \<Rightarrow> string \<Rightarrow> string list \<Rightarrow> makecmd" where
  "store_cmd name dstkey keys = shl_vector (shl (makecmd name) dstkey) keys"

text \<open>
  The \<^verbatim>\<open>switch\<close> of \<^verbatim>\<open>zunionstore\<close> and \<^verbatim>\<open>zinterstore\<close> has no \<^verbatim>\<open>break\<close>: each case
  falls through to the ones below it.
\<close>

datatype aggregate_type = aggregate_sum | aggregate_min | aggregate_max

definition aggregate_words :: "aggregate_type \<Rightarrow> string list" where
  "aggregate_words a =
     (case a of
        aggregate_sum \<Rightarrow> [''SUM'', ''MIN'', ''MAX'']
      | aggregate_min \<Rightarrow> [''MIN'', ''MAX'']
      | aggregate_max \<Rightarrow> [''MAX''])"

definition zstore_cmd ::
  "string \<Rightarrow> string \<Rightarrow> string list \<Rightarrow> string list \<Rightarrow> aggregate_type \<Rightarrow> makecmd" where
  "zstore_cmd name dstkey keys weights aggragate =
     shl_vector
       (shl
          (if length weights > 0
           then shl_vector (shl_size (shl_vector (shl_size (shl (makecmd name) dstkey) (length keys)) keys)
                              (length weights)) weights
           else shl_vector (shl_size (shl (makecmd name) dstkey) (length keys)) keys)
          ''AGGREGATE'')
       (aggregate_words aggragate)"

definition rename :: "base_client \<Rightarrow> string \<Rightarrow> string \<Rightarrow> unit io" where
  "rename c old_name new_name =
     io_bind (io_lift (get_socket c old_name)) (\<lambda>source_socket.
     io_bind (io_lift (get_socket c new_name)) (\<lambda>destin_socket.
       if source_socket \<noteq> destin_socket
       then io_throw (runtime_error ''feature is not available in cluster mode'')
       else io_bind (send source_socket (to_string (rename_cmd old_name new_name)))
              (\<lambda>u. recv_ok_reply source_socket)))"

definition renamenx :: "base_client \<Rightarrow> string \<Rightarrow> string \<Rightarrow> bool io" where
  "renamenx c old_name new_name =
     io_bind (io_lift (get_socket c old_name)) (\<lambda>source_socket.
     io_bind (io_lift (get_socket c new_name)) (\<lambda>destin_socket.
       if source_socket \<noteq> destin_socket
       then io_throw (runtime_error ''feature is not available in cluster mode'')
       else io_bind (send source_socket (to_string (renamenx_cmd old_name new_name)))
              (\<lambda>u. io_bind (recv_int_reply source_socket) (\<lambda>r. io_return (r = 1)))))"

definition smove :: "base_client \<Rightarrow> string \<Rightarrow> string \<Rightarrow> string \<Rightarrow> unit io" where
  "smove c srckey dstkey member =
     io_bind (io_lift (get_socket c srckey)) (\<lambda>src_socket.
     io_bind (io_lift (get_socket c dstkey)) (\<lambda>dst_socket.
       if dst_socket \<noteq> src_socket
       then io_throw (runtime_error ''function not available in cluster mode'')
       else io_bind (send src_socket (to_string (smove_cmd srckey dstkey member)))
              (\<lambda>u. recv_int_ok_reply src_socket)))"

text \<open>
  \<^verbatim>\<open>blpop(const string_vector & keys, int_type timeout)\<close>; \<open>max_size\<close> is the bound of the
  vector \<^verbatim>\<open>sv\<close> the reply is read into.
\<close>

definition blpop :: "nat \<Rightarrow> base_client \<Rightarrow> string list \<Rightarrow> int \<Rightarrow> (string \<times> string) io" where
  "blpop max_size c keys timeout n =
     (case io_bind (io_lift (get_socket_keys c keys)) (\<lambda>sock.
             io_bind (send sock (to_string (blpop_cmd keys timeout))) (\<lambda>u. io_return sock)) n of
        (Inl e, n') \<Rightarrow> (Inl e, n')
      | (Inr sock, n') \<Rightarrow>
          (case recv_multi_bulk_reply max_size sock [] n' of
             (Inl e, sv, n'') \<Rightarrow> (Inl e, n'')
           | (Inr r, sv, n'') \<Rightarrow>
               if length sv = 2 then (Inr (sv ! 0, sv ! 1), n'')
               else (Inr ([], missing_value), n'')))"

text \<open>\<^verbatim>\<open>sinter\<close>, \<^verbatim>\<open>sunion\<close> and \<^verbatim>\<open>sdiff\<close> differ in the command name only.\<close>

definition set_command ::
  "string \<Rightarrow> base_client \<Rightarrow> string list \<Rightarrow> string set \<Rightarrow> net \<Rightarrow> (error + int) \<times> string set \<times> net" where
  "set_command name c keys out n =
     (case io_bind (io_lift (get_socket_keys c keys)) (\<lambda>sock.
             io_bind (send sock (to_string (set_cmd name keys))) (\<lambda>u. io_return sock)) n of
        (Inl e, n') \<Rightarrow> (Inl e, out, n')
      | (Inr sock, n') \<Rightarrow> recv_multi_bulk_reply_set sock out n')"

definition sinter ::
  "base_client \<Rightarrow> string list \<Rightarrow> string set \<Rightarrow> net \<Rightarrow> (error + int) \<times> string set \<times> net" where
  "sinter = set_command ''SINTER''"

definition sunion ::
  "base_client \<Rightarrow> string list \<Rightarrow> string set \<Rightarrow> net \<Rightarrow> (error + int) \<times> string set \<times> net" where
  "sunion = set_command ''SUNION''"

definition sdiff ::
  "base_client \<Rightarrow> string list \<Rightarrow> string set \<Rightarrow> net \<Rightarrow> (error + int) \<times> string set \<times> net" where
  "sdiff = set_command ''SDIFF''"

text \<open>\<^verbatim>\<open>sinterstore\<close>, \<^verbatim>\<open>sunionstore\<close> and \<^verbatim>\<open>sdiffstore\<close>, likewise.\<close>

definition store_command :: "string \<Rightarrow> base_client \<Rightarrow> string \<Rightarrow> string list \<Rightarrow> int io" where
  "store_command name c dstkey keys =
     io_bind (io_lift (get_socket c dstkey)) (\<lambda>sock.
     io_bind (io_lift (get_socket_keys c keys)) (\<lambda>source_sockets.
       if sock \<noteq> source_sockets
       then io_throw (runtime_error ''not available in cluster mode'')
       else io_bind (send sock (to_string (store_cmd name dstkey keys)))
              (\<lambda>u. recv_int_reply sock)))"

definition sinterstore :: "base_client \<Rightarrow> string \<Rightarrow> string list \<Rightarrow> int io" where
  "sinterstore = store_command ''SINTERSTORE''"

definition sunionstore :: "base_client \<Rightarrow> string \<Rightarrow> string list \<Rightarrow> int io" where
  "sunionstore = store_command ''SUNIONSTORE''"

definition sdiffstore :: "base_client \<Rightarrow> string \<Rightarrow> string list \<Rightarrow> int io" where
  "sdiffstore = store_command ''SDIFFSTORE''"

text \<open>\<^verbatim>\<open>zunionstore\<close> and \<^verbatim>\<open>zinterstore\<close>; the \<^verbatim>\<open>assert\<close> comes after the routing.\<close>

definition zstore_command ::
  "string \<Rightarrow> base_client \<Rightarrow> string \<Rightarrow> string list \<Rightarrow> string list \<Rightarrow> aggregate_type \<Rightarrow> int io" where
  "zstore_command name c dstkey keys weights aggragate =
     io_bind (io_lift (get_socket c dstkey)) (\<lambda>dst_socket.
     io_bind (io_lift (get_socket_keys c keys)) (\<lambda>sock.
       if sock \<noteq> dst_socket
       then io_throw (runtime_error ''feature is not available in cluster mode'')
       else if length weights > 0 \<and> length keys \<noteq> length weights then io_throw assertion_failure
       else io_bind (send sock (to_string (zstore_cmd name dstkey keys weights aggragate)))
              (\<lambda>u. recv_int_reply sock)))"

definition zunionstore ::
  "base_client \<Rightarrow> string \<Rightarrow> string list \<Rightarrow> string list \<Rightarrow> aggregate_type \<Rightarrow> int io" where
  "zunionstore = zstore_command ''ZUNIONSTORE''"

definition zinterstore ::
  "base_client \<Rightarrow> string \<Rightarrow> string list \<Rightarrow> string list \<Rightarrow> aggregate_type \<Rightarrow> int io" where
  "zinterstore = zstore_command ''ZINTERSTORE''"

text \<open>
  The operations above as one family, to speak of all of them at once: a call, the keys
  it names, the assertions it makes on its arguments, the command it builds, and what
  running it leaves behind (the error thrown, if any, and the network). Each of them
  compares the sockets of its keys itself or calls \<^verbatim>\<open>get_socket(keys)\<close>. The other
  operations on several keys follow: \<^verbatim>\<open>mset\<close> and \<^verbatim>\<open>msetnx\<close> on a key and a value vector,
  and \<^verbatim>\<open>mset\<close> on pairs, \<^verbatim>\<open>msetex\<close> and \<^verbatim>\<open>mget\<close>, which route every key on its own.
  \<^verbatim>\<open>brpop(const string_vector &, int_type)\<close> is absent: its last line does not compile
  once the template is instantiated.
\<close>

datatype multi_key_call =
    Rename string string
  | Renamenx string string
  | Smove string string string
  | Blpop "string list" int
  | Sinter "string list" "string set"
  | Sunion "string list" "string set"
  | Sdiff "string list" "string set"
  | Sinterstore string "string list"
  | Sunionstore string "string list"
  | Sdiffstore string "string list"
  | Zunionstore string "string list" "string list" aggregate_type
  | Zinterstore string "string list" "string list" aggregate_type

fun call_keys :: "multi_key_call \<Rightarrow> string list" where
  "call_keys (Rename old_name new_name) = [old_name, new_name]"
| "call_keys (Renamenx old_name new_name) = [old_name, new_name]"
| "call_keys (Smove srckey dstkey member) = [srckey, dstkey]"
| "call_keys (Blpop keys timeout) = keys"
| "call_keys (Sinter keys out) = keys"
| "call_keys (Sunion keys out) = keys"
| "call_keys (Sdiff keys out) = keys"
| "call_keys (Sinterstore dstkey keys) = dstkey # keys"
| "call_keys (Sunionstore dstkey keys) = dstkey # keys"
| "call_keys (Sdiffstore dstkey keys) = dstkey # keys"
| "call_keys (Zunionstore dstkey keys weights a) = dstkey # keys"
| "call_keys (Zinterstore dstkey keys weights a) = dstkey # keys"

fun call_asserts :: "multi_key_call \<Rightarrow> bool" where
  "call_asserts (Rename old_name new_name) = True"
| "call_asserts (Renamenx old_name new_name) = True"
| "call_asserts (Smove srckey dstkey member) = True"
| "call_asserts (Blpop keys timeout) = (keys \<noteq> [])"
| "call_asserts (Sinter keys out) = (keys \<noteq> [])"
| "call_asserts (Sunion keys out) = (keys \<noteq> [])"
| "call_asserts (Sdiff keys out) = (keys \<noteq> [])"
| "call_asserts (Sinterstore dstkey keys) = (keys \<noteq> [])"
| "call_asserts (Sunionstore dstkey keys) = (keys \<noteq> [])"
| "call_asserts (Sdiffstore dstkey keys) = (keys \<noteq> [])"
| "call_asserts (Zunionstore dstkey keys weights a) =
     (keys \<noteq> [] \<and> (weights = [] \<or> length keys = length weights))"
| "call_asserts (Zinterstore dstkey keys weights a) =
     (keys \<noteq> [] \<and> (weights = [] \<or> length keys = length weights))"

fun call_cmd :: "multi_key_call \<Rightarrow> makecmd" where
  "call_cmd (Rename old_name new_name) = rename_cmd old_name new_name"
| "call_cmd (Renamenx old_name new_name) = renamenx_cmd old_name new_name"
| "call_cmd (Smove srckey dstkey member) = smove_cmd srckey dstkey member"
| "call_cmd (Blpop keys timeout) = blpop_cmd keys timeout"
| "call_cmd (Sinter keys out) = set_cmd ''SINTER'' keys"
| "call_cmd (Sunion keys out) = set_cmd ''SUNION'' keys"
| "call_cmd (Sdiff keys out) = set_cmd ''SDIFF'' keys"
| "call_cmd (Sinterstore dstkey keys) = store_cmd ''SINTERSTORE'' dstkey keys"
| "call_cmd (Sunionstore dstkey keys) = store_cmd ''SUNIONSTORE'' dstkey keys"
| "call_cmd (Sdiffstore dstkey keys) = store_cmd ''SDIFFSTORE'' dstkey keys"
| "call_cmd (Zunionstore dstkey keys weights a) = zstore_cmd ''ZUNIONSTORE'' dstkey keys weights a"
| "call_cmd (Zinterstore dstkey keys weights a) = zstore_cmd ''ZINTERSTORE'' dstkey keys weights a"

definition thrown :: "error + 'a \<Rightarrow> error option" where
  "thrown r = (case r of Inl e \<Rightarrow> Some e | Inr v \<Rightarrow> None)"

fun run_call :: "nat \<Rightarrow> base_client \<Rightarrow> multi_key_call \<Rightarrow> net \<Rightarrow> error option \<times> net" where
  "run_call max_size c (Rename old_name new_name) n =
     (case rename c old_name new_name n of (r, n') \<Rightarrow> (thrown r, n'))"
| "run_call max_size c (Renamenx old_name new_name) n =
     (case renamenx c old_name new_name n of (r, n') \<Rightarrow> (thrown r, n'))"
| "run_call max_size c (Smove srckey dstkey member) n =
     (case smove c srckey dstkey member n of (r, n') \<Rightarrow> (thrown r, n'))"
| "run_call max_size c (Blpop keys timeout) n =
     (case blpop max_size c keys timeout n of (r, n') \<Rightarrow> (thrown r, n'))"
| "run_call max_size c (Sinter keys out) n =
     (case sinter c keys out n of (r, out', n') \<Rightarrow> (thrown r, n'))"
| "run_call max_size c (Sunion keys out) n =
     (case sunion c keys out n of (r, out', n') \<Rightarrow> (thrown r, n'))"
| "run_call max_size c (Sdiff keys out) n =
     (case sdiff c keys out n of (r, out', n') \<Rightarrow> (thrown r, n'))"
| "run_call max_size c (Sinterstore dstkey keys) n =
     (case sinterstore c dstkey keys n of (r, n') \<Rightarrow> (thrown r, n'))"
| "run_call max_size c (Sunionstore dstkey keys) n =
     (case sunionstore c dstkey keys n of (r, n') \<Rightarrow> (thrown r, n'))"
| "run_call max_size c (Sdiffstore dstkey keys) n =
     (case sdiffstore c dstkey keys n of (r, n') \<Rightarrow> (thrown r, n'))"
| "run_call max_size c (Zunionstore dstkey keys weights a) n =
     (case zunionstore c dstkey keys weights a n of (r, n') \<Rightarrow> (thrown r, n'))"
| "run_call max_size c (Zinterstore dstkey keys weights a) n =
     (case zinterstore c dstkey keys weights a n of (r, n') \<Rightarrow> (thrown r, n'))"

text \<open>The messages of the errors that reject an operation across connections.\<close>

definition cluster_mode_messages :: "string list" where
  "cluster_mode_messages =
     [''not possible in cluster mode'', ''not available in cluster mode'',
      ''feature is not available in cluster mode'', ''function not available in cluster mode'']"

fun cross_shard :: "error option \<Rightarrow> bool" where
  "cross_shard (Some (runtime_error m)) = (m \<in> set cluster_mode_messages)"
| "cross_shard r = False"

section \<open>mset\<close>

text \<open>
  \<^verbatim>\<open>std::map<int, boost::optional<makecmd> >\<close>: the entries in ascending order of the
  socket. \<open>map_at\<close> is \<^verbatim>\<open>operator[]\<close> followed by the test of the optional, and
  \<open>map_assign\<close> stores the command built for a socket.
\<close>

type_synonym socket_commands = "(int \<times> makecmd) list"

fun map_assign :: "int \<Rightarrow> 'd \<Rightarrow> (int \<times> 'd) list \<Rightarrow> (int \<times> 'd) list" where
  "map_assign k v [] = [(k, v)]"
| "map_assign k v ((k', v') # m) =
     (if k < k' then (k, v) # (k', v') # m
      else if k = k' then (k, v) # m
      else (k', v') # map_assign k v m)"

definition map_at :: "string \<Rightarrow> socket_commands \<Rightarrow> int \<Rightarrow> makecmd" where
  "map_at name m k = (case map_of m k of None \<Rightarrow> makecmd name | Some cmd \<Rightarrow> cmd)"

text \<open>
  The first loop of \<^verbatim>\<open>mset(const string_vector & keys, const string_vector & values)\<close>,
  as written: every round calls \<^verbatim>\<open>get_socket(keys)\<close>, the overload for a key vector.
\<close>

function mset_loop ::
  "base_client \<Rightarrow> string list \<Rightarrow> string list \<Rightarrow> nat \<Rightarrow> socket_commands \<Rightarrow> error + socket_commands" where
  "mset_loop c keys vals i socket_commands =
     (if i < length keys
      then (case get_socket_keys c keys of
              Inl e \<Rightarrow> Inl e
            | Inr sock \<Rightarrow>
                mset_loop c keys vals (i + 1)
                  (map_assign sock (shl (shl (map_at ''MSET'' socket_commands sock) (keys ! i)) (vals ! i))
                     socket_commands))
      else Inr socket_commands)"
  by pat_completeness auto
termination
  by (relation "measure (\<lambda>(c, keys, vals, i, m). length keys - i)") auto

declare mset_loop.simps [simp del]

text \<open>The two \<^verbatim>\<open>BOOST_FOREACH\<close> loops over the map.\<close>

fun send_all :: "socket_commands \<Rightarrow> unit io" where
  "send_all [] = io_return ()"
| "send_all (sp # sps) = io_bind (send (fst sp) (to_string (snd sp))) (\<lambda>u. send_all sps)"

fun recv_ok_all :: "socket_commands \<Rightarrow> unit io" where
  "recv_ok_all [] = io_return ()"
| "recv_ok_all (sp # sps) = io_bind (recv_ok_reply (fst sp)) (\<lambda>u. recv_ok_all sps)"

definition mset :: "base_client \<Rightarrow> string list \<Rightarrow> string list \<Rightarrow> unit io" where
  "mset c keys vals =
     (if length keys \<noteq> length vals then io_throw assertion_failure
      else io_bind (io_lift (mset_loop c keys vals 0 [])) (\<lambda>socket_commands.
           io_bind (send_all socket_commands) (\<lambda>u. recv_ok_all socket_commands)))"

text \<open>
  The corrected variant the specification speaks of: the \<open>i\<close>-th pair is routed by
  \<^verbatim>\<open>get_socket(keys[i])\<close>, as \<^verbatim>\<open>mset(const string_pair_vector &)\<close> routes its pairs.
\<close>

function mset_corrected_loop ::
  "base_client \<Rightarrow> string list \<Rightarrow> string list \<Rightarrow> nat \<Rightarrow> socket_commands \<Rightarrow> error + socket_commands" where
  "mset_corrected_loop c keys vals i socket_commands =
     (if i < length keys
      then (case get_socket c (keys ! i) of
              Inl e \<Rightarrow> Inl e
            | Inr sock \<Rightarrow>
                mset_corrected_loop c keys vals (i + 1)
                  (map_assign sock (shl (shl (map_at ''MSET'' socket_commands sock) (keys ! i)) (vals ! i))
                     socket_commands))
      else Inr socket_commands)"
  by pat_completeness auto
termination
  by (relation "measure (\<lambda>(c, keys, vals, i, m). length keys - i)") auto

declare mset_corrected_loop.simps [simp del]

definition mset_corrected :: "base_client \<Rightarrow> string list \<Rightarrow> string list \<Rightarrow> unit io" where
  "mset_corrected c keys vals =
     (if length keys \<noteq> length vals then io_throw assertion_failure
      else io_bind (io_lift (mset_corrected_loop c keys vals 0 [])) (\<lambda>socket_commands.
           io_bind (send_all socket_commands) (\<lambda>u. recv_ok_all socket_commands)))"

section \<open>msetnx\<close>

text \<open>
  \<^verbatim>\<open>msetnx(const string_vector & keys, const string_vector & values)\<close>. Its first loop is
  that of \<^verbatim>\<open>mset(keys, values)\<close> with the command \<^verbatim>\<open>MSETNX\<close>, and it too calls
  \<^verbatim>\<open>get_socket(keys)\<close> every round. A map of more than one socket is refused; the one loop
  that follows sends a socket its command and reads the status reply. The function is
  declared to return \<^verbatim>\<open>bool\<close> and has no \<^verbatim>\<open>return\<close> statement: flowing off its end is
  undefined. \<^verbatim>\<open>msetnx(const string_pair_vector &)\<close> is absent: its loop names \<^verbatim>\<open>keys\<close>, which
  is not declared there.
\<close>

function msetnx_loop ::
  "base_client \<Rightarrow> string list \<Rightarrow> string list \<Rightarrow> nat \<Rightarrow> socket_commands \<Rightarrow> error + socket_commands" where
  "msetnx_loop c keys vals i socket_commands =
     (if i < length keys
      then (case get_socket_keys c keys of
              Inl e \<Rightarrow> Inl e
            | Inr sock \<Rightarrow>
                msetnx_loop c keys vals (i + 1)
                  (map_assign sock (shl (shl (map_at ''MSETNX'' socket_commands sock) (keys ! i)) (vals ! i))
                     socket_commands))
      else Inr socket_commands)"
  by pat_completeness auto
termination
  by (relation "measure (\<lambda>(c, keys, vals, i, m). length keys - i)") auto

declare msetnx_loop.simps [simp del]

fun send_recv_ok_all :: "socket_commands \<Rightarrow> unit io" where
  "send_recv_ok_all [] = io_return ()"
| "send_recv_ok_all (sp # sps) =
     io_bind (send (fst sp) (to_string (snd sp))) (\<lambda>u.
     io_bind (recv_ok_reply (fst sp)) (\<lambda>u. send_recv_ok_all sps))"

definition msetnx :: "base_client \<Rightarrow> string list \<Rightarrow> string list \<Rightarrow> bool io" where
  "msetnx c keys vals =
     (if length keys \<noteq> length vals then io_throw assertion_failure
      else io_bind (io_lift (msetnx_loop c keys vals 0 [])) (\<lambda>socket_commands.
           if length socket_commands > 1
           then io_throw (runtime_error ''feature is not available in cluster mode'')
           else io_bind (send_recv_ok_all socket_commands) (\<lambda>u. io_throw undefined_behaviour)))"

text \<open>
  The two operations on a key vector and a value vector as one family: a call, its keys
  and values, the command it builds when all its keys live on one socket (the pairs in
  their order), and what running it leaves behind.
\<close>

datatype key_value_call =
    Mset "string list" "string list"
  | Msetnx "string list" "string list"

fun key_value_keys :: "key_value_call \<Rightarrow> string list" where
  "key_value_keys (Mset keys vals) = keys"
| "key_value_keys (Msetnx keys vals) = keys"

fun key_value_vals :: "key_value_call \<Rightarrow> string list" where
  "key_value_vals (Mset keys vals) = vals"
| "key_value_vals (Msetnx keys vals) = vals"

fun key_value_cmd :: "key_value_call \<Rightarrow> makecmd" where
  "key_value_cmd (Mset keys vals) =
     foldl (\<lambda>m kv. shl (shl m (fst kv)) (snd kv)) (makecmd ''MSET'') (zip keys vals)"
| "key_value_cmd (Msetnx keys vals) =
     foldl (\<lambda>m kv. shl (shl m (fst kv)) (snd kv)) (makecmd ''MSETNX'') (zip keys vals)"

fun run_key_value :: "base_client \<Rightarrow> key_value_call \<Rightarrow> net \<Rightarrow> error option \<times> net" where
  "run_key_value c (Mset keys vals) n =
     (case mset c keys vals n of (r, n') \<Rightarrow> (thrown r, n'))"
| "run_key_value c (Msetnx keys vals) n =
     (case msetnx c keys vals n of (r, n') \<Rightarrow> (thrown r, n'))"

section \<open>Operations that route every key on its own\<close>

text \<open>
  \<^verbatim>\<open>mset(const string_pair_vector &)\<close>, \<^verbatim>\<open>msetex\<close> and \<^verbatim>\<open>mget\<close> begin with a loop of one
  shape. Round \<open>i\<close> routes the \<open>i\<close>-th key alone, with \<^verbatim>\<open>get_socket(key)\<close>; takes the entry
  of that socket in a \<^verbatim>\<open>std::map\<close> with \<^verbatim>\<open>operator[]\<close>, which creates the entry when the
  socket has none; and updates the entry. \<open>map_entry\<close> is that lookup, \<open>init\<close> being the
  entry a round finds behind the test \<^verbatim>\<open>if(!cmd)\<close> when it has just been created, and
  \<open>step i\<close> what round \<open>i\<close> does to the entry. No round compares two sockets, and none
  throws, unless the router does.
\<close>

definition map_entry :: "'d \<Rightarrow> (int \<times> 'd) list \<Rightarrow> int \<Rightarrow> 'd" where
  "map_entry init m k = (case map_of m k of None \<Rightarrow> init | Some d \<Rightarrow> d)"

function per_key_loop ::
  "base_client \<Rightarrow> string list \<Rightarrow> 'd \<Rightarrow> (nat \<Rightarrow> 'd \<Rightarrow> 'd) \<Rightarrow> nat \<Rightarrow> (int \<times> 'd) list
     \<Rightarrow> error + (int \<times> 'd) list" where
  "per_key_loop c keys init step i socket_commands =
     (if i < length keys
      then (case get_socket c (keys ! i) of
              Inl e \<Rightarrow> Inl e
            | Inr sock \<Rightarrow>
                per_key_loop c keys init step (i + 1)
                  (map_assign sock (step i (map_entry init socket_commands sock)) socket_commands))
      else Inr socket_commands)"
  by pat_completeness auto
termination
  by (relation "measure (\<lambda>(c, keys, init, step, i, m). length keys - i)") auto

declare per_key_loop.simps [simp del]

text \<open>
  The second loop of the three, \<^verbatim>\<open>BOOST_FOREACH\<close> over the map in ascending order of the
  socket: every entry's socket is sent the bytes \<open>wire\<close> makes of the entry.
\<close>

fun send_each :: "('d \<Rightarrow> string) \<Rightarrow> (int \<times> 'd) list \<Rightarrow> unit io" where
  "send_each wire [] = io_return ()"
| "send_each wire (sp # sps) = io_bind (send (fst sp) (wire (snd sp))) (\<lambda>u. send_each wire sps)"

text \<open>
  \<^verbatim>\<open>mset(const string_pair_vector & key_value_pairs)\<close>: an entry is the \<^verbatim>\<open>MSET\<close> command of
  its socket, sent and answered as in \<^verbatim>\<open>mset(keys, values)\<close>.
\<close>

definition mset_pairs :: "base_client \<Rightarrow> (string \<times> string) list \<Rightarrow> unit io" where
  "mset_pairs c key_value_pairs =
     io_bind (io_lift (per_key_loop c (map fst key_value_pairs) (makecmd ''MSET'')
                (\<lambda>i m. shl (shl m (fst (key_value_pairs ! i))) (snd (key_value_pairs ! i))) 0 []))
       (\<lambda>socket_commands.
          io_bind (send_all socket_commands) (\<lambda>u. recv_ok_all socket_commands))"

text \<open>
  \<^verbatim>\<open>msetex\<close>. An entry is a \<^verbatim>\<open>msetex_data\<close>: the \<^verbatim>\<open>MSET\<close> command of the socket, the
  \<^verbatim>\<open>EXPIRE\<close> commands of its keys as one string, and their number. The socket is sent the
  \<^verbatim>\<open>MSET\<close> followed by the \<^verbatim>\<open>EXPIRE\<close> commands, and answers with one status reply and
  \<open>count\<close> integer replies.
\<close>

record msetex_data =
  mset_cmd :: makecmd
  expire_cmds :: string
  count :: nat

fun recv_int_ok_times :: "int \<Rightarrow> nat \<Rightarrow> unit io" where
  "recv_int_ok_times sock 0 = io_return ()"
| "recv_int_ok_times sock (Suc k) =
     io_bind (recv_int_ok_reply sock) (\<lambda>u. recv_int_ok_times sock k)"

fun msetex_recv_all :: "(int \<times> msetex_data) list \<Rightarrow> unit io" where
  "msetex_recv_all [] = io_return ()"
| "msetex_recv_all (sp # sps) =
     io_bind (recv_ok_reply (fst sp)) (\<lambda>u.
     io_bind (recv_int_ok_times (fst sp) (count (snd sp))) (\<lambda>u. msetex_recv_all sps))"

definition msetex :: "base_client \<Rightarrow> (string \<times> string) list \<Rightarrow> int \<Rightarrow> unit io" where
  "msetex c key_value_pairs seconds =
     io_bind (io_lift (per_key_loop c (map fst key_value_pairs)
                \<lparr>mset_cmd = makecmd ''MSET'', expire_cmds = [], count = 0\<rparr>
                (\<lambda>i dat.
                   \<lparr>mset_cmd = shl (shl (mset_cmd dat) (fst (key_value_pairs ! i)))
                                 (snd (key_value_pairs ! i)),
                    expire_cmds = expire_cmds dat
                       @ to_string (shl_int (shl (makecmd ''EXPIRE'') (fst (key_value_pairs ! i))) seconds),
                    count = count dat + 1\<rparr>) 0 []))
       (\<lambda>socket_commands.
          io_bind (send_each (\<lambda>dat. to_string (mset_cmd dat) @ expire_cmds dat) socket_commands)
            (\<lambda>u. msetex_recv_all socket_commands))"

text \<open>
  \<^verbatim>\<open>mget\<close>. An entry is a \<^verbatim>\<open>connection_keys\<close>: the \<^verbatim>\<open>MGET\<close> command of the socket and the
  positions of its keys in \<^verbatim>\<open>keys\<close>. \<^verbatim>\<open>out\<close> is assigned \<^verbatim>\<open>keys.size()\<close> empty strings first;
  every socket of the map is sent its command; then every socket's multi-bulk reply is
  read into a fresh vector and its values are stored at the positions noted. A reply with
  more values than the socket was asked for reads \<^verbatim>\<open>indices\<close> past its end.
\<close>

record connection_keys =
  cmd :: makecmd
  indices :: "nat list"

function mget_assign :: "nat list \<Rightarrow> string list \<Rightarrow> nat \<Rightarrow> string list \<Rightarrow> error + string list" where
  "mget_assign positions cur_out i out =
     (if i < length cur_out
      then if length positions \<le> i \<or> length out \<le> positions ! i then Inl undefined_behaviour
           else mget_assign positions cur_out (i + 1) (out[positions ! i := cur_out ! i])
      else Inr out)"
  by pat_completeness auto
termination
  by (relation "measure (\<lambda>(positions, cur_out, i, out). length cur_out - i)") auto

declare mget_assign.simps [simp del]

fun mget_recv_all ::
  "nat \<Rightarrow> (int \<times> connection_keys) list \<Rightarrow> string list \<Rightarrow> net
     \<Rightarrow> (error + unit) \<times> string list \<times> net" where
  "mget_recv_all max_size [] out n = (Inr (), out, n)"
| "mget_recv_all max_size (sp # sps) out n =
     (case recv_multi_bulk_reply max_size (fst sp) [] n of
        (Inl e, cur_out, n') \<Rightarrow> (Inl e, out, n')
      | (Inr len, cur_out, n') \<Rightarrow>
          (case mget_assign (indices (snd sp)) cur_out 0 out of
             Inl e \<Rightarrow> (Inl e, out, n')
           | Inr out' \<Rightarrow> mget_recv_all max_size sps out' n'))"

definition mget ::
  "nat \<Rightarrow> base_client \<Rightarrow> string list \<Rightarrow> net \<Rightarrow> (error + unit) \<times> string list \<times> net" where
  "mget max_size c keys n =
     (case per_key_loop c keys \<lparr>cmd = makecmd ''MGET'', indices = []\<rparr>
             (\<lambda>i con_keys. \<lparr>cmd = shl (cmd con_keys) (keys ! i), indices = indices con_keys @ [i]\<rparr>)
             0 [] of
        Inl e \<Rightarrow> (Inl e, replicate (length keys) [], n)
      | Inr socket_commands \<Rightarrow>
          (case send_each (\<lambda>con_keys. to_string (cmd con_keys)) socket_commands n of
             (Inl e, n') \<Rightarrow> (Inl e, replicate (length keys) [], n')
           | (Inr u, n') \<Rightarrow>
               mget_recv_all max_size socket_commands (replicate (length keys) []) n'))"

text \<open>
  The three as one family: a call, the keys it names, what running it leaves behind (the
  error thrown, if any, and the network), and the bytes that a socket is to be sent by it:
  nothing when none of the call's keys is routed to the socket, and otherwise one command
  that names, in their order, the keys routed there (for \<^verbatim>\<open>msetex\<close>, followed by one
  \<^verbatim>\<open>EXPIRE\<close> for each of them). \<open>per_key_wire\<close> is used in the statements only; no operation
  is defined through it.
\<close>

datatype per_key_call =
    Mset_pairs "(string \<times> string) list"
  | Msetex "(string \<times> string) list" int
  | Mget "string list"

fun per_key_keys :: "per_key_call \<Rightarrow> string list" where
  "per_key_keys (Mset_pairs key_value_pairs) = map fst key_value_pairs"
| "per_key_keys (Msetex key_value_pairs seconds) = map fst key_value_pairs"
| "per_key_keys (Mget keys) = keys"

fun run_per_key :: "nat \<Rightarrow> base_client \<Rightarrow> per_key_call \<Rightarrow> net \<Rightarrow> error option \<times> net" where
  "run_per_key max_size c (Mset_pairs key_value_pairs) n =
     (case mset_pairs c key_value_pairs n of (r, n') \<Rightarrow> (thrown r, n'))"
| "run_per_key max_size c (Msetex key_value_pairs seconds) n =
     (case msetex c key_value_pairs seconds n of (r, n') \<Rightarrow> (thrown r, n'))"
| "run_per_key max_size c (Mget keys) n =
     (case mget max_size c keys n of (r, out, n') \<Rightarrow> (thrown r, n'))"

definition routed_to :: "base_client \<Rightarrow> int \<Rightarrow> (string \<times> 'v) list \<Rightarrow> (string \<times> 'v) list" where
  "routed_to c fd key_value_pairs = filter (\<lambda>kv. get_socket c (fst kv) = Inr fd) key_value_pairs"

fun per_key_wire :: "base_client \<Rightarrow> per_key_call \<Rightarrow> int \<Rightarrow> string" where
  "per_key_wire c (Mset_pairs key_value_pairs) fd =
     (if routed_to c fd key_value_pairs = [] then []
      else to_string (foldl (\<lambda>m kv. shl (shl m (fst kv)) (snd kv)) (makecmd ''MSET'')
                        (routed_to c fd key_value_pairs)))"
| "per_key_wire c (Msetex key_value_pairs seconds) fd =
     (if routed_to c fd key_value_pairs = [] then []
      else to_string (foldl (\<lambda>m kv. shl (shl m (fst kv)) (snd kv)) (makecmd ''MSET'')
                        (routed_to c fd key_value_pairs))
           @ concat (map (\<lambda>kv. to_string (shl_int (shl (makecmd ''EXPIRE'') (fst kv)) seconds))
                        (routed_to c fd key_value_pairs)))"
| "per_key_wire c (Mget keys) fd =
     (if filter (\<lambda>k. get_socket c k = Inr fd) keys = [] then []
      else to_string (foldl shl (makecmd ''MGET'') (filter (\<lambda>k. get_socket c k = Inr fd) keys)))"

section \<open>Example clients and networks\<close>

text \<open>
  Concrete inputs for the instances below: a network on which every socket delivers the
  segments \<open>q\<close> and accepts writes, a client with one connection (socket 3), and a client
  with two (sockets 3 and 4) whose default strategy hashes a key to its length, standing
  in for \<^verbatim>\<open>boost::hash\<close>.
\<close>

definition quiet_net :: "string list \<Rightarrow> net" where
  "quiet_net q = (\<lambda>fd. \<lparr>rcvq = q, sent = [], wr_err = None\<rparr>)"

definition single_client :: base_client where
  "single_client =
     \<lparr>connections = [\<lparr>host = ''localhost'', port = 6379, dbindex = 0, socket = 3\<rparr>],
      hasher = default_hasher length\<rparr>"

definition cluster_client :: base_client where
  "cluster_client =
     \<lparr>connections = [\<lparr>host = ''localhost'', port = 6379, dbindex = 0, socket = 3\<rparr>,
                     \<lparr>host = ''localhost'', port = 6380, dbindex = 0, socket = 4\<rparr>],
      hasher = default_hasher length\<rparr>"

section \<open>Theorems\<close>

subsection \<open>The Command Encoder\<close>

lemma to_string_loop_eq:
  "n = length ls \<Longrightarrow>
   to_string_loop ls n i oss =
     oss @ concat (map (\<lambda>p. CHR ''$'' # dec (length p) @ REDIS_LBR @ p @ REDIS_LBR) (drop i ls))"
proof (induction ls n i oss rule: to_string_loop.induct)
  case (1 ls n i oss)
  show ?case
  proof (cases "i < n")
    case True
    then have d: "drop i ls = (ls ! i) # drop (Suc i) ls"
      using "1.prems" by (simp add: Cons_nth_drop_Suc)
    show ?thesis
      using True "1.IH" "1.prems"
      by (subst to_string_loop.simps) (simp add: d REDIS_PREFIX_SINGLE_BULK_REPLY_def)
  next
    case False
    then show ?thesis
      using "1.prems" by (subst to_string_loop.simps) simp
  qed
qed

lemma lines_foldl_shl: "lines (foldl shl m args) = lines m @ args"
  by (induction args arbitrary: m) (simp_all add: shl_def makecmd_append_def)

text \<open>
  C1. For every command name and every list of arguments, the encoder writes the header
  \<open>*<argc>\<close>, CR, LF and then, for the name and each argument in order, \<open>$<len>\<close>, CR, LF,
  the bytes themselves, CR, LF, where \<open>len\<close> is the number of bytes. The arguments are
  arbitrary byte strings: none is inspected or escaped. In particular \<^verbatim>\<open>SET foo bar\<close> is
  encoded as the bytes of the specification's scenario, and an argument holding CR and LF
  is copied as it is.
\<close>

theorem makecmd_wire_format:
  "to_string (foldl shl (makecmd name) args) =
     CHR ''*'' # dec (length (name # args)) @ [CHR 0x0D, CHR 0x0A] @
     concat (map (\<lambda>a. CHR ''$'' # dec (length a) @ [CHR 0x0D, CHR 0x0A] @ a @ [CHR 0x0D, CHR 0x0A])
               (name # args))
   \<and> to_string (shl (shl (makecmd ''SET'') ''foo'') ''bar'') =
       ''*3'' @ [CHR 0x0D, CHR 0x0A] @ ''$3'' @ [CHR 0x0D, CHR 0x0A] @ ''SET'' @ [CHR 0x0D, CHR 0x0A]
         @ ''$3'' @ [CHR 0x0D, CHR 0x0A] @ ''foo'' @ [CHR 0x0D, CHR 0x0A]
         @ ''$3'' @ [CHR 0x0D, CHR 0x0A] @ ''bar'' @ [CHR 0x0D, CHR 0x0A]
   \<and> to_string (shl (makecmd ''ECHO'') [CHR ''a'', CHR 0x0D, CHR 0x0A, CHR ''b'']) =
       ''*2'' @ [CHR 0x0D, CHR 0x0A] @ ''$4'' @ [CHR 0x0D, CHR 0x0A] @ ''ECHO'' @ [CHR 0x0D, CHR 0x0A]
         @ ''$4'' @ [CHR 0x0D, CHR 0x0A] @ [CHR ''a'', CHR 0x0D, CHR 0x0A, CHR ''b''] @ [CHR 0x0D, CHR 0x0A]"
proof -
  have gen: "to_string m =
      CHR ''*'' # dec (length (lines m)) @ [CHR 0x0D, CHR 0x0A] @
      concat (map (\<lambda>a. CHR ''$'' # dec (length a) @ [CHR 0x0D, CHR 0x0A] @ a @ [CHR 0x0D, CHR 0x0A])
                (lines m))" for m
    by (simp add: to_string_def Let_def to_string_loop_eq REDIS_PREFIX_MULTI_BULK_REPLY_def
        REDIS_LBR_def)
  have l: "lines (foldl shl (makecmd name) args) = name # args"
    by (simp add: lines_foldl_shl makecmd_def makecmd_append_def)
  have a: "to_string (foldl shl (makecmd name) args) =
     CHR ''*'' # dec (length (name # args)) @ [CHR 0x0D, CHR 0x0A] @
     concat (map (\<lambda>a. CHR ''$'' # dec (length a) @ [CHR 0x0D, CHR 0x0A] @ a @ [CHR 0x0D, CHR 0x0A])
               (name # args))"
    by (simp only: gen l)
  have b: "to_string (shl (shl (makecmd ''SET'') ''foo'') ''bar'') =
       ''*3'' @ [CHR 0x0D, CHR 0x0A] @ ''$3'' @ [CHR 0x0D, CHR 0x0A] @ ''SET'' @ [CHR 0x0D, CHR 0x0A]
         @ ''$3'' @ [CHR 0x0D, CHR 0x0A] @ ''foo'' @ [CHR 0x0D, CHR 0x0A]
         @ ''$3'' @ [CHR 0x0D, CHR 0x0A] @ ''bar'' @ [CHR 0x0D, CHR 0x0A]"
    by (simp add: gen shl_def makecmd_def makecmd_append_def dec.simps digit_char_def)
  have c: "to_string (shl (makecmd ''ECHO'') [CHR ''a'', CHR 0x0D, CHR 0x0A, CHR ''b'']) =
       ''*2'' @ [CHR 0x0D, CHR 0x0A] @ ''$4'' @ [CHR 0x0D, CHR 0x0A] @ ''ECHO'' @ [CHR 0x0D, CHR 0x0A]
         @ ''$4'' @ [CHR 0x0D, CHR 0x0A] @ [CHR ''a'', CHR 0x0D, CHR 0x0A, CHR ''b''] @ [CHR 0x0D, CHR 0x0A]"
    by (simp add: gen shl_def makecmd_def makecmd_append_def dec.simps digit_char_def)
  from a b c show ?thesis by blast
qed

subsection \<open>Numbers as text\<close>

lemma digit_char_props:
  assumes "d < 10"
  shows "digit_val (digit_char d) = d" and "is_digit (digit_char d)"
    and "digit_char d \<noteq> CHR 0x0A" and "digit_char d \<noteq> CHR 0x0D"
    and "digit_char d \<noteq> CHR ''-''" and "digit_char d \<noteq> CHR ''+''"
proof -
  from assms have "d \<in> {0, 1, 2, 3, 4, 5, 6, 7, 8, 9}" by auto
  then show "digit_val (digit_char d) = d" and "is_digit (digit_char d)"
    and "digit_char d \<noteq> CHR 0x0A" and "digit_char d \<noteq> CHR 0x0D"
    and "digit_char d \<noteq> CHR ''-''" and "digit_char d \<noteq> CHR ''+''"
    by (auto simp: digit_val_def digit_char_def is_digit_def)
qed

lemma dec_not_Nil: "dec n \<noteq> []"
  by (subst dec.simps) simp

lemma dec_all_digits: "list_all is_digit (dec n)"
proof (induction n rule: dec.induct)
  case (1 n)
  show ?case
  proof (cases "n < 10")
    case True
    then show ?thesis by (subst dec.simps) (simp add: digit_char_props)
  next
    case False
    then show ?thesis using 1 by (subst dec.simps) (simp add: digit_char_props)
  qed
qed

lemma is_digit_not_special:
  "is_digit c \<Longrightarrow> c \<noteq> CHR 0x0A \<and> c \<noteq> CHR 0x0D \<and> c \<noteq> CHR ''-'' \<and> c \<noteq> CHR ''+''"
  by (auto simp: is_digit_def)

lemma digits_value_snoc: "digits_value (ds @ [c]) = 10 * digits_value ds + digit_val c"
  by (simp add: digits_value_def)

lemma digits_value_dec: "digits_value (dec n) = n"
proof (induction n rule: dec.induct)
  case (1 n)
  show ?case
  proof (cases "n < 10")
    case True
    then show ?thesis
      by (subst dec.simps) (simp add: digits_value_def digit_char_props)
  next
    case False
    then have "digits_value (dec n) = 10 * digits_value (dec (n div 10)) + digit_val (digit_char (n mod 10))"
      by (subst dec.simps) (simp add: digits_value_snoc)
    also have "\<dots> = 10 * (n div 10) + n mod 10"
      using False 1 by (simp add: digit_char_props)
    finally show ?thesis by simp
  qed
qed

lemma lexical_cast_dec:
  assumes "int n \<le> LONG_MAX"
  shows "lexical_cast_int_type (dec n) = Inr (int n)"
proof -
  obtain c cs where d: "dec n = c # cs"
    using dec_not_Nil by (cases "dec n") auto
  have "list_all is_digit (c # cs)"
    using dec_all_digits [of n] by (simp add: d)
  then have c: "c \<noteq> CHR ''-''" "c \<noteq> CHR ''+''" and all: "list_all is_digit (c # cs)"
    using is_digit_not_special [of c] by auto
  have v: "digits_value (c # cs) = n"
    using digits_value_dec [of n] by (simp add: d)
  show ?thesis
    unfolding lexical_cast_int_type_def d
    using c all v assms by (simp add: Let_def)
qed

lemma lexical_cast_minus_one: "lexical_cast_int_type ''-1'' = Inr (- 1)"
  by (simp add: lexical_cast_int_type_def Let_def is_digit_def digits_value_def digit_val_def
      LONG_MIN_def)

lemma dec_no_eol: "c \<in> set (dec n) \<Longrightarrow> c \<noteq> CHR 0x0A \<and> c \<noteq> CHR 0x0D"
  using dec_all_digits [of n] is_digit_not_special by (auto simp: list_all_iff)

lemma last_dec_no_eol: "last (dec n) \<noteq> CHR 0x0A \<and> last (dec n) \<noteq> CHR 0x0D"
  using dec_no_eol [of "last (dec n)" n] dec_not_Nil [of n] by simp

subsection \<open>Trimming\<close>

lemma find_last_not_of_append_ws:
  "set t \<subseteq> set ws \<Longrightarrow> find_last_not_of (x @ t) ws = find_last_not_of x ws"
proof (induction x)
  case Nil
  then show ?case by (induction t) (auto split: option.splits)
next
  case (Cons a x)
  then show ?case by simp
qed

lemma find_last_not_of_last:
  "x \<noteq> [] \<Longrightarrow> last x \<notin> set ws \<Longrightarrow> find_last_not_of x ws = Some (length x - 1)"
proof (induction x)
  case Nil
  then show ?case by simp
next
  case (Cons a x)
  then show ?case by (cases x) (auto split: option.splits)
qed

lemma rtrim_line:
  assumes "x = [] \<or> last x \<notin> set ws" and "set t \<subseteq> set ws"
  shows "rtrim (x @ t) ws = x"
proof (cases "x = []")
  case True
  have "find_last_not_of t ws = None"
    using find_last_not_of_append_ws [OF assms(2), of "[]"] by simp
  then show ?thesis using True by (simp add: rtrim_def)
next
  case False
  then have "find_last_not_of (x @ t) ws = Some (length x - 1)"
    using assms find_last_not_of_append_ws [OF assms(2), of x] find_last_not_of_last [of x ws]
    by simp
  then show ?thesis using False by (simp add: rtrim_def)
qed

lemma find_last_not_of_less: "find_last_not_of str ws = Some pos \<Longrightarrow> pos < length str"
  by (induction str arbitrary: pos) (auto split: option.splits if_splits)

lemma rtrim_eq: "rtrim str ws = rev (dropWhile (\<lambda>c. c \<in> set ws) (rev str))"
proof (induction str rule: rev_induct)
  case Nil
  then show ?case by (simp add: rtrim_def)
next
  case (snoc a str)
  show ?case
  proof (cases "a \<in> set ws")
    case True
    then have "find_last_not_of (str @ [a]) ws = find_last_not_of str ws"
      by (intro find_last_not_of_append_ws) simp
    then have "rtrim (str @ [a]) ws = rtrim str ws"
      by (auto simp: rtrim_def split: option.splits dest: find_last_not_of_less)
    then show ?thesis using True snoc by simp
  next
    case False
    then show ?thesis
      using rtrim_line [of "str @ [a]" ws "[]"] by simp
  qed
qed

subsection \<open>Receiving\<close>

lemma delivered_Nil [simp]: "delivered [] = []"
  by (simp add: delivered_def)

lemma delivered_Cons: "delivered (s # qs) = (if s = [] then [] else s @ delivered qs)"
  by (simp add: delivered_def)

lemma delivered_nonempty:
  assumes "delivered q \<noteq> []"
  obtains s qs where "q = s # qs" and "s \<noteq> []" and "delivered q = s @ delivered qs"
  using assms by (cases q) (auto simp: delivered_Cons split: if_splits)

lemma recv_Cons:
  assumes "s \<noteq> []"
  shows "fst (recv k (s # qs)) = take k s"
    and "delivered (snd (recv k (s # qs))) = drop k s @ delivered qs"
  using assms by (auto simp: recv_def delivered_Cons)

lemma recv_closed: "delivered q = [] \<Longrightarrow> fst (recv k q) = []"
  by (cases q) (auto simp: recv_def delivered_Cons split: if_splits)

lemma recv_peek_Cons: "recv_peek k (s # qs) = take k s"
  by (simp add: recv_peek_def)

lemma recv_peek_closed: "delivered q = [] \<Longrightarrow> recv_peek k q = []"
  by (cases q) (auto simp: recv_peek_def delivered_Cons split: if_splits)

subsection \<open>The Exact Reader\<close>

lemma read_n_loop_result:
  "length buf \<le> n \<Longrightarrow>
   \<exists>q'. read_n_loop n buf q =
          (if n - length buf \<le> length (delivered q)
           then Inr (buf @ take (n - length buf) (delivered q))
           else Inl (connection_error ''connection was closed''), q')
        \<and> (n - length buf \<le> length (delivered q) \<longrightarrow>
             delivered q' = drop (n - length buf) (delivered q))"
proof (induction n buf q rule: read_n_loop.induct)
  case (1 n buf q)
  let ?k = "n - length buf"
  show ?case
  proof (cases "length buf = n")
    case True
    then show ?thesis by (subst read_n_loop.simps) simp
  next
    case False
    then have k: "0 < ?k" using "1.prems" by simp
    show ?thesis
    proof (cases "delivered q = []")
      case True
      then show ?thesis
        using False k by (subst read_n_loop.simps) (simp add: recv_closed)
    next
      case ne: False
      then obtain s qs where q: "q = s # qs" and s: "s \<noteq> []"
        and d: "delivered q = s @ delivered qs"
        by (rule delivered_nonempty)
      have got: "fst (recv ?k q) = take ?k s"
        and rest: "delivered (snd (recv ?k q)) = drop ?k s @ delivered qs"
        using recv_Cons [OF s] by (simp_all add: q)
      have gne: "fst (recv ?k q) \<noteq> []"
        using got s k by simp
      have le: "length (buf @ fst (recv ?k q)) \<le> n"
        using got "1.prems" by simp
      from "1.IH" [OF False gne le]
      obtain q' where
        r: "read_n_loop n (buf @ fst (recv ?k q)) (snd (recv ?k q)) =
              (if n - length (buf @ fst (recv ?k q)) \<le> length (delivered (snd (recv ?k q)))
               then Inr ((buf @ fst (recv ?k q)) @
                      take (n - length (buf @ fst (recv ?k q))) (delivered (snd (recv ?k q))))
               else Inl (connection_error ''connection was closed''), q')"
        and d': "n - length (buf @ fst (recv ?k q)) \<le> length (delivered (snd (recv ?k q))) \<longrightarrow>
               delivered q' = drop (n - length (buf @ fst (recv ?k q))) (delivered (snd (recv ?k q)))"
        by blast
      have step: "read_n_loop n buf q = read_n_loop n (buf @ fst (recv ?k q)) (snd (recv ?k q))"
        using False gne by (subst read_n_loop.simps) simp
      show ?thesis
      proof (cases "?k \<le> length s")
        case True
        then show ?thesis
          using r d' step got rest d "1.prems" by (intro exI [of _ q']) (simp add: min_def)
      next
        case False
        then show ?thesis
          using r d' step got rest d "1.prems" by (intro exI [of _ q']) (auto simp: min_def)
      qed
    qed
  qed
qed

lemma read_n_q_ok:
  assumes "0 \<le> n" and "n < LONG_MAX" and "nat n \<le> length (delivered q)"
  shows "\<exists>q'. read_n_q n q = (Inr (take (nat n) (delivered q)), q')
             \<and> delivered q' = drop (nat n) (delivered q)"
  using read_n_loop_result [of "[]" "nat n" q] assms by (auto simp: read_n_q_def)

lemma read_n_q_closed:
  assumes "0 \<le> n" and "n < LONG_MAX" and "length (delivered q) < nat n"
  shows "\<exists>q'. read_n_q n q = (Inl (connection_error ''connection was closed''), q')"
  using read_n_loop_result [of "[]" "nat n" q] assms by (auto simp: read_n_q_def)

subsection \<open>The Line Reader\<close>

lemma memchr_None: "memchr b c = None \<longleftrightarrow> c \<notin> set b"
  by (induction b) auto

lemma memchr_Some:
  "memchr b c = Some i \<Longrightarrow> i < length b \<and> b ! i = c \<and> c \<notin> set (take i b)"
proof (induction b arbitrary: i)
  case Nil
  then show ?case by simp
next
  case (Cons x b)
  then show ?case by (cases "x = c") auto
qed

lemma first_split_unique:
  assumes "x \<notin> set a" and "x \<notin> set b" and "a @ x # r = b @ x # r'"
  shows "a = b \<and> r = r'"
  using assms
proof (induction a arbitrary: b)
  case Nil
  then show ?case by (cases b) auto
next
  case (Cons y a)
  then show ?case by (cases b) auto
qed

lemma prefix_before_first:
  assumes "x \<notin> set a" and "a @ r = l @ x # rest"
  shows "\<exists>l'. l = a @ l' \<and> r = l' @ x # rest"
  using assms
proof (induction a arbitrary: l)
  case Nil
  then show ?case by simp
next
  case (Cons y a)
  then show ?case by (cases l) auto
qed

lemma peek_consume:
  assumes "delivered q \<noteq> []"
  shows "\<exists>bb t. recv_peek buffer_size q = bb \<and> bb \<noteq> [] \<and> delivered q = bb @ t
    \<and> (\<forall>k. k \<le> length bb \<longrightarrow> delivered (snd (recv k q)) = drop k bb @ t)"
proof -
  from assms obtain s qs where q: "q = s # qs" and s: "s \<noteq> []"
    and d: "delivered q = s @ delivered qs"
    by (rule delivered_nonempty)
  define bb where "bb = take buffer_size s"
  define t where "t = drop buffer_size s @ delivered qs"
  have sb: "s = bb @ drop buffer_size s" by (simp add: bb_def)
  have 1: "recv_peek buffer_size q = bb" by (simp add: q recv_peek_Cons bb_def)
  have 2: "bb \<noteq> []" unfolding bb_def using s by (simp add: buffer_size_def)
  have 3: "delivered q = bb @ t" using d sb by (simp add: t_def bb_def)
  have 4: "delivered (snd (recv k q)) = drop k bb @ t" if "k \<le> length bb" for k
  proof -
    have "drop k s = drop k (bb @ drop buffer_size s)" using sb by simp
    also have "\<dots> = drop k bb @ drop buffer_size s" using that by simp
    finally show ?thesis
      using recv_Cons(2) [OF s, of k qs] by (simp add: q t_def)
  qed
  from 1 2 3 4 show ?thesis by blast
qed

lemma read_line_loop_found:
  "read_line_loop m t True oss q = (Inr oss, q)"
  by (subst read_line_loop.simps) simp

lemma read_line_loop_line:
  assumes "t < m" and "CHR 0x0A \<notin> set l" and "delivered q = l @ CHR 0x0A # rest"
  shows "\<exists>q'. read_line_loop m t False oss q = (Inr (oss @ l @ [CHR 0x0A]), q')
             \<and> delivered q' = rest"
  using assms(2,3)
proof (induction "length l" arbitrary: l q oss rule: less_induct)
  case less
  from less.prems(2) have "delivered q \<noteq> []" by simp
  then obtain bb tl where b: "recv_peek buffer_size q = bb" and bne: "bb \<noteq> []"
    and d: "delivered q = bb @ tl"
    and c: "\<And>k. k \<le> length bb \<Longrightarrow> delivered (snd (recv k q)) = drop k bb @ tl"
    using peek_consume [of q] by blast
  show ?case
  proof (cases "memchr bb (CHR 0x0A)")
    case None
    then have nb: "CHR 0x0A \<notin> set bb" by (simp add: memchr_None)
    have "bb @ tl = l @ CHR 0x0A # rest"
      using less.prems(2) d by simp
    from prefix_before_first [OF nb this]
    obtain l' where l: "l = bb @ l'" and r: "tl = l' @ CHR 0x0A # rest"
      by blast
    have lt: "length l' < length l" using l bne by simp
    have nl': "CHR 0x0A \<notin> set l'" using less.prems(1) l by simp
    have dq: "delivered (snd (recv (length bb) q)) = l' @ CHR 0x0A # rest"
      using c [of "length bb"] r by simp
    from less.hyps [OF lt nl' dq, of "oss @ bb"]
    obtain q' where "read_line_loop m t False (oss @ bb) (snd (recv (length bb) q))
        = (Inr ((oss @ bb) @ l' @ [CHR 0x0A]), q')" and "delivered q' = rest"
      by blast
    then show ?thesis
      using None bne assms(1) l b by (subst read_line_loop.simps) simp
  next
    case (Some eol)
    from memchr_Some [OF this]
    have e: "eol < length bb" and be: "bb ! eol = CHR 0x0A"
      and ne: "CHR 0x0A \<notin> set (take eol bb)"
      by blast+
    have bs: "bb = take eol bb @ CHR 0x0A # drop (Suc eol) bb"
      using id_take_nth_drop [OF e] be by simp
    have "take eol bb @ CHR 0x0A # (drop (Suc eol) bb @ tl) = l @ CHR 0x0A # rest"
      using less.prems(2) d bs by (metis append.assoc append_Cons)
    from first_split_unique [OF ne less.prems(1) this]
    have l: "take eol bb = l" and r: "drop (Suc eol) bb @ tl = rest"
      by blast+
    have tk: "take (eol + 1) bb = l @ [CHR 0x0A]"
      using take_Suc_conv_app_nth [OF e] be l by simp
    have dq: "delivered (snd (recv (eol + 1) q)) = rest"
      using c [of "eol + 1"] e r by simp
    show ?thesis
      using Some bne assms(1) tk dq b
      by (subst read_line_loop.simps) (simp add: read_line_loop_found)
  qed
qed

lemma read_line_loop_closed:
  assumes "t < m" and "CHR 0x0A \<notin> set (delivered q)"
  shows "\<exists>q'. read_line_loop m t False oss q = (Inl (connection_error ''connection was closed''), q')
             \<and> delivered q' = []"
  using assms(2)
proof (induction "length (delivered q)" arbitrary: q oss rule: less_induct)
  case less
  show ?case
  proof (cases "delivered q = []")
    case True
    then show ?thesis
      using assms(1) by (subst read_line_loop.simps) (simp add: recv_peek_closed)
  next
    case False
    then obtain bb tl where b: "recv_peek buffer_size q = bb" and bne: "bb \<noteq> []"
      and d: "delivered q = bb @ tl"
      and c: "\<And>k. k \<le> length bb \<Longrightarrow> delivered (snd (recv k q)) = drop k bb @ tl"
      using peek_consume [of q] by blast
    have m: "memchr bb (CHR 0x0A) = None"
      using less.prems d by (simp add: memchr_None)
    have dq: "delivered (snd (recv (length bb) q)) = tl"
      using c [of "length bb"] by simp
    have lt: "length (delivered (snd (recv (length bb) q))) < length (delivered q)"
      using dq d bne by simp
    have "CHR 0x0A \<notin> set (delivered (snd (recv (length bb) q)))"
      using dq d less.prems by simp
    from less.hyps [OF lt this, of "oss @ bb"]
    obtain q' where "read_line_loop m t False (oss @ bb) (snd (recv (length bb) q))
        = (Inl (connection_error ''connection was closed''), q')" and "delivered q' = []"
      by blast
    then show ?thesis
      using bne assms(1) m b by (subst read_line_loop.simps) simp
  qed
qed

subsection \<open>Readers on the network\<close>

lemma set_rcvq_same [simp]: "rcvq (set_rcvq n fd q fd) = q"
  by (simp add: set_rcvq_def)

lemma set_rcvq_twice [simp]: "set_rcvq (set_rcvq n fd q) fd q' = set_rcvq n fd q'"
  by (simp add: set_rcvq_def)

lemma set_rcvq_sent [simp]: "sent (set_rcvq n fd q fd') = sent (n fd')"
  by (simp add: set_rcvq_def)

lemma set_rcvq_wr_err [simp]: "wr_err (set_rcvq n fd q fd') = wr_err (n fd')"
  by (simp add: set_rcvq_def)

lemma set_rcvq_other: "fd' \<noteq> fd \<Longrightarrow> set_rcvq n fd q fd' = n fd'"
  by (simp add: set_rcvq_def)

lemma read_line_wire:
  assumes "0 < sock" and "0 < m"
    and "delivered (rcvq (n sock)) = x @ [CHR 0x0D, CHR 0x0A] @ rest"
    and "CHR 0x0A \<notin> set x" and "x = [] \<or> (last x \<noteq> CHR 0x0D \<and> last x \<noteq> CHR 0x0A)"
  shows "\<exists>q'. read_line sock m n = (Inr x, set_rcvq n sock q') \<and> delivered q' = rest"
proof -
  have nl: "CHR 0x0A \<notin> set (x @ [CHR 0x0D])" using assms(4) by simp
  have d: "delivered (rcvq (n sock)) = (x @ [CHR 0x0D]) @ CHR 0x0A # rest"
    using assms(3) by simp
  from read_line_loop_line [OF assms(2) nl d, of "[]"]
  obtain q' where r: "read_line_loop m 0 False [] (rcvq (n sock)) = (Inr ((x @ [CHR 0x0D]) @ [CHR 0x0A]), q')"
    and q': "delivered q' = rest"
    by auto
  have "rtrim (x @ [CHR 0x0D, CHR 0x0A]) REDIS_LBR = x"
    using assms(5) by (intro rtrim_line) (auto simp: REDIS_LBR_def)
  then have "read_line sock m n = (Inr x, set_rcvq n sock q')"
    using assms(1,2) r by (simp add: read_line_def on_rcvq_def read_line_q_def)
  with q' show ?thesis by blast
qed

text \<open>
  Whatever the budget, a line that the peer terminates is returned without its trailing
  carriage returns and line feeds, and the bytes after the terminator stay on the socket.
\<close>

lemma read_line_line:
  assumes "0 < sock" and "0 < m" and "CHR 0x0A \<notin> set l"
    and "delivered (rcvq (n sock)) = l @ CHR 0x0A # rest"
  shows "\<exists>q'. read_line sock m n =
            (Inr (rev (dropWhile (\<lambda>c. c = CHR 0x0D \<or> c = CHR 0x0A) (rev l))), set_rcvq n sock q')
          \<and> delivered q' = rest"
proof -
  from read_line_loop_line [OF assms(2,3,4), of "[]"]
  obtain q' where r: "read_line_loop m 0 False [] (rcvq (n sock)) = (Inr (l @ [CHR 0x0A]), q')"
    and q': "delivered q' = rest"
    by auto
  have "rtrim (l @ [CHR 0x0A]) REDIS_LBR = rev (dropWhile (\<lambda>c. c = CHR 0x0D \<or> c = CHR 0x0A) (rev l))"
    by (simp add: rtrim_eq REDIS_LBR_def)
  then have "read_line sock m n =
      (Inr (rev (dropWhile (\<lambda>c. c = CHR 0x0D \<or> c = CHR 0x0A) (rev l))), set_rcvq n sock q')"
    using assms(1,2) r by (simp add: read_line_def on_rcvq_def read_line_q_def)
  with q' show ?thesis by blast
qed

lemma read_line_closed:
  assumes "0 < sock" and "0 < m" and "CHR 0x0A \<notin> set (delivered (rcvq (n sock)))"
  shows "\<exists>q'. read_line sock m n = (Inl (connection_error ''connection was closed''), set_rcvq n sock q')"
proof -
  from read_line_loop_closed [OF assms(2,3), of "[]"]
  obtain q' where "read_line_loop m 0 False [] (rcvq (n sock))
      = (Inl (connection_error ''connection was closed''), q')"
    by auto
  then have "read_line sock m n = (Inl (connection_error ''connection was closed''), set_rcvq n sock q')"
    using assms(1,2) by (simp add: read_line_def on_rcvq_def read_line_q_def)
  then show ?thesis by blast
qed

lemma read_n_ok:
  assumes "0 \<le> k" and "k < LONG_MAX" and "nat k \<le> length (delivered (rcvq (n sock)))"
  shows "\<exists>q'. read_n sock k n = (Inr (take (nat k) (delivered (rcvq (n sock)))), set_rcvq n sock q')
             \<and> delivered q' = drop (nat k) (delivered (rcvq (n sock)))"
  using read_n_q_ok [OF assms] by (auto simp: read_n_def on_rcvq_def)

lemma read_n_closed:
  assumes "0 \<le> k" and "k < LONG_MAX" and "length (delivered (rcvq (n sock))) < nat k"
  shows "\<exists>q'. read_n sock k n = (Inl (connection_error ''connection was closed''), set_rcvq n sock q')"
  using read_n_q_closed [OF assms] by (auto simp: read_n_def on_rcvq_def)

subsection \<open>Reply headers\<close>

lemma recv_bulk_reply_prefix_dec:
  assumes "0 < sock" and "int k \<le> LONG_MAX" and "p \<noteq> CHR 0x0A"
    and "delivered (rcvq (n sock)) = p # dec k @ [CHR 0x0D, CHR 0x0A] @ rest"
  shows "\<exists>q'. recv_bulk_reply_prefix sock p n = (Inr (int k), set_rcvq n sock q')
             \<and> delivered q' = rest"
proof -
  have 1: "delivered (rcvq (n sock)) = (p # dec k) @ [CHR 0x0D, CHR 0x0A] @ rest"
    using assms(4) by simp
  have 2: "CHR 0x0A \<notin> set (p # dec k)"
    using assms(3) dec_no_eol [of "CHR 0x0A" k] by auto
  have 3: "p # dec k = [] \<or> (last (p # dec k) \<noteq> CHR 0x0D \<and> last (p # dec k) \<noteq> CHR 0x0A)"
    using last_dec_no_eol [of k] dec_not_Nil [of k] by simp
  obtain q' where r: "read_line sock 2048 n = (Inr (p # dec k), set_rcvq n sock q')"
    and q': "delivered q' = rest"
    using read_line_wire [where sock = sock and m = 2048 and n = n and x = "p # dec k" and rest = rest]
      assms(1) 1 2 3 by auto
  have "recv_bulk_reply_prefix sock p n = (Inr (int k), set_rcvq n sock q')"
    using r by (simp add: recv_bulk_reply_prefix_def io_bind_def string_front_def io_lift_def
        lexical_cast_dec [OF assms(2)])
  with q' show ?thesis by blast
qed

lemma recv_bulk_reply_prefix_minus_one:
  assumes "0 < sock" and "p \<noteq> CHR 0x0A"
    and "delivered (rcvq (n sock)) = p # ''-1'' @ [CHR 0x0D, CHR 0x0A] @ rest"
  shows "\<exists>q'. recv_bulk_reply_prefix sock p n = (Inr (- 1), set_rcvq n sock q')
             \<and> delivered q' = rest"
proof -
  have 1: "delivered (rcvq (n sock)) = (p # ''-1'') @ [CHR 0x0D, CHR 0x0A] @ rest"
    using assms(3) by simp
  have 2: "CHR 0x0A \<notin> set (p # ''-1'')"
    using assms(2) by auto
  have 3: "p # ''-1'' = [] \<or> (last (p # ''-1'') \<noteq> CHR 0x0D \<and> last (p # ''-1'') \<noteq> CHR 0x0A)"
    by simp
  obtain q' where r: "read_line sock 2048 n = (Inr (p # ''-1''), set_rcvq n sock q')"
    and q': "delivered q' = rest"
    using read_line_wire [where sock = sock and m = 2048 and n = n and x = "p # ''-1''" and rest = rest]
      assms(1) 1 2 3 by auto
  have "recv_bulk_reply_prefix sock p n = (Inr (- 1), set_rcvq n sock q')"
    using r by (simp add: recv_bulk_reply_prefix_def io_bind_def string_front_def io_lift_def
        lexical_cast_minus_one)
  with q' show ?thesis by blast
qed

subsection \<open>Bulk replies\<close>

lemma recv_bulk_reply_missing:
  assumes "0 < sock"
    and "delivered (rcvq (n sock)) = ''$-1'' @ [CHR 0x0D, CHR 0x0A] @ rest"
  shows "\<exists>q'. recv_bulk_reply sock n = (Inr missing_value, set_rcvq n sock q') \<and> delivered q' = rest"
proof -
  obtain q' where r: "recv_bulk_reply_prefix sock (CHR ''$'') n = (Inr (- 1), set_rcvq n sock q')"
    and q': "delivered q' = rest"
    using recv_bulk_reply_prefix_minus_one [where sock = sock and p = "CHR ''$''" and n = n and rest = rest]
      assms by auto
  have "recv_bulk_reply sock n = (Inr missing_value, set_rcvq n sock q')"
    using r by (simp add: recv_bulk_reply_def REDIS_PREFIX_SINGLE_BULK_REPLY_def io_bind_def
        io_return_def)
  with q' show ?thesis by blast
qed

lemma recv_bulk_reply_payload:
  assumes "0 < sock" and "int (length payload) + 2 < LONG_MAX" and "length tail = 2"
    and "delivered (rcvq (n sock)) =
           CHR ''$'' # dec (length payload) @ [CHR 0x0D, CHR 0x0A] @ payload @ tail @ rest"
  shows "\<exists>q'. recv_bulk_reply sock n = (Inr payload, set_rcvq n sock q') \<and> delivered q' = rest"
proof -
  let ?N = "int (length payload)"
  have le: "?N \<le> LONG_MAX" using assms(2) by simp
  obtain q1 where r: "recv_bulk_reply_prefix sock (CHR ''$'') n = (Inr ?N, set_rcvq n sock q1)"
    and q1: "delivered q1 = payload @ tail @ rest"
    using recv_bulk_reply_prefix_dec [where sock = sock and p = "CHR ''$''" and n = n
        and k = "length payload" and rest = "payload @ tail @ rest"] assms(1,4) le
    by auto
  let ?n1 = "set_rcvq n sock q1"
  have k: "nat (?N + 2) \<le> length (delivered (rcvq (?n1 sock)))"
    using q1 assms(3) by simp
  obtain q2 where rn: "read_n sock (?N + 2) ?n1 =
        (Inr (take (nat (?N + 2)) (delivered (rcvq (?n1 sock)))), set_rcvq ?n1 sock q2)"
    and q2: "delivered q2 = drop (nat (?N + 2)) (delivered (rcvq (?n1 sock)))"
    using read_n_ok [where sock = sock and n = ?n1 and k = "?N + 2"] k assms(2) by auto
  have tk: "take (nat (?N + 2)) (delivered (rcvq (?n1 sock))) = payload @ tail"
    using q1 assms(3) by (simp add: nat_add_distrib)
  have dr: "delivered q2 = rest"
    using q2 q1 assms(3) by (simp add: nat_add_distrib)
  have "bulk_reply_data (?N + 2) (payload @ tail) = Inr payload"
    using assms(3) by (auto simp: bulk_reply_data_def)
  then have "recv_bulk_reply sock n = (Inr payload, set_rcvq n sock q2)"
    using r assms(2) rn tk
    by (simp add: recv_bulk_reply_def REDIS_PREFIX_SINGLE_BULK_REPLY_def io_bind_def io_lift_def)
  with dr show ?thesis by blast
qed

lemma recv_bulk_reply_closed_early:
  assumes "0 < sock" and "int N + 2 < LONG_MAX" and "length short < N + 2"
    and "delivered (rcvq (n sock)) = CHR ''$'' # dec N @ [CHR 0x0D, CHR 0x0A] @ short"
  shows "fst (recv_bulk_reply sock n) = Inl (connection_error ''connection was closed'')"
proof -
  have le: "int N \<le> LONG_MAX" using assms(2) by simp
  obtain q1 where r: "recv_bulk_reply_prefix sock (CHR ''$'') n = (Inr (int N), set_rcvq n sock q1)"
    and q1: "delivered q1 = short"
    using recv_bulk_reply_prefix_dec [where sock = sock and p = "CHR ''$''" and n = n
        and k = N and rest = short] assms(1,4) le
    by auto
  let ?n1 = "set_rcvq n sock q1"
  have k: "length (delivered (rcvq (?n1 sock))) < nat (int N + 2)"
    using q1 assms(3) by (simp add: nat_add_distrib)
  obtain q2 where rn: "read_n sock (int N + 2) ?n1 =
        (Inl (connection_error ''connection was closed''), set_rcvq ?n1 sock q2)"
    using read_n_closed [where sock = sock and n = ?n1 and k = "int N + 2"] k assms(2) by auto
  show ?thesis
    using r assms(2) rn
    by (simp add: recv_bulk_reply_def REDIS_PREFIX_SINGLE_BULK_REPLY_def io_bind_def)
qed

lemma bulk_reply_data_mismatch:
  assumes "int (length data) \<noteq> real_length"
  shows "is_protocol_error (bulk_reply_data real_length data)"
  using assms by (simp add: bulk_reply_data_def)

lemma recv_bulk_reply_wire:
  assumes "0 < sock" and "bulk_reply_fits v"
    and "delivered (rcvq (n sock)) = bulk_reply_wire v @ rest"
  shows "\<exists>q'. recv_bulk_reply sock n = (Inr (bulk_reply_value v), set_rcvq n sock q')
             \<and> delivered q' = rest"
proof (cases v)
  case None
  then show ?thesis
    using recv_bulk_reply_missing [where sock = sock and n = n and rest = rest] assms(1,3)
    by (simp add: bulk_reply_wire_def bulk_reply_value_def)
next
  case (Some p)
  then show ?thesis
    using recv_bulk_reply_payload [where sock = sock and payload = p
        and tail = "[CHR 0x0D, CHR 0x0A]" and n = n and rest = rest] assms
    by (simp add: bulk_reply_wire_def bulk_reply_value_def bulk_reply_fits_def)
qed

subsection \<open>Multi-bulk replies\<close>

lemma set_rcvq_id [simp]: "set_rcvq n fd (rcvq (n fd)) = n"
  by (simp add: set_rcvq_def)

lemma recv_multi_bulk_loop_wire:
  assumes "0 < sock"
  shows "list_all bulk_reply_fits xs \<Longrightarrow> len - i = int (length xs) \<Longrightarrow>
     delivered (rcvq (n sock)) = concat (map bulk_reply_wire xs) @ rest \<Longrightarrow>
     \<exists>q'. recv_multi_bulk_loop put sock len i out n =
            (Inr (), foldl put out (map bulk_reply_value xs), set_rcvq n sock q')
          \<and> delivered q' = rest"
proof (induction xs arbitrary: i out n)
  case Nil
  then have "recv_multi_bulk_loop put sock len i out n = (Inr (), out, set_rcvq n sock (rcvq (n sock)))"
    by (subst recv_multi_bulk_loop.simps) simp
  then show ?case using Nil by (intro exI [of _ "rcvq (n sock)"]) simp
next
  case (Cons x xs)
  have lt: "i < len" using Cons.prems(2) by simp
  obtain q1 where r: "recv_bulk_reply sock n = (Inr (bulk_reply_value x), set_rcvq n sock q1)"
    and q1: "delivered q1 = concat (map bulk_reply_wire xs) @ rest"
    using recv_bulk_reply_wire [where sock = sock and v = x and n = n
        and rest = "concat (map bulk_reply_wire xs) @ rest"] assms Cons.prems
    by auto
  let ?n1 = "set_rcvq n sock q1"
  have "\<exists>q'. recv_multi_bulk_loop put sock len (i + 1) (put out (bulk_reply_value x)) ?n1 =
            (Inr (), foldl put (put out (bulk_reply_value x)) (map bulk_reply_value xs),
             set_rcvq ?n1 sock q')
          \<and> delivered q' = rest"
    using Cons.prems q1 by (intro Cons.IH) simp_all
  then obtain q' where
    "recv_multi_bulk_loop put sock len (i + 1) (put out (bulk_reply_value x)) ?n1 =
       (Inr (), foldl put (put out (bulk_reply_value x)) (map bulk_reply_value xs), set_rcvq n sock q')"
    and "delivered q' = rest"
    by auto
  then show ?case
    using lt r by (subst recv_multi_bulk_loop.simps) auto
qed

lemma foldl_push_back: "foldl (\<lambda>v d. v @ [d]) out ys = out @ ys"
  by (induction ys arbitrary: out) simp_all

lemma foldl_insert: "foldl (\<lambda>v d. insert d v) out ys = out \<union> set ys"
  by (induction ys arbitrary: out) auto

lemma reserve_fits:
  assumes "length out + m \<le> max_size"
  shows "\<not> max_size < nat ((int (length out) + int m) mod 2 ^ 64)"
proof -
  have "(int (length out) + int m) mod 2 ^ 64 \<le> int (length out) + int m"
    by (intro zmod_le_nonneg_dividend) simp
  then show ?thesis using assms by linarith
qed

lemma recv_multi_bulk_reply_wire:
  assumes "0 < sock" and "list_all bulk_reply_fits xs" and "int (length xs) \<le> LONG_MAX"
    and "delivered (rcvq (n sock)) =
           CHR ''*'' # dec (length xs) @ [CHR 0x0D, CHR 0x0A] @ concat (map bulk_reply_wire xs) @ rest"
    and "length out + length xs \<le> max_size"
  shows "\<exists>q'. recv_multi_bulk_reply max_size sock out n =
            (Inr (int (length xs)), out @ map bulk_reply_value xs, set_rcvq n sock q')
          \<and> delivered q' = rest"
proof -
  obtain q1 where r: "recv_bulk_reply_prefix sock (CHR ''*'') n = (Inr (int (length xs)), set_rcvq n sock q1)"
    and q1: "delivered q1 = concat (map bulk_reply_wire xs) @ rest"
    using recv_bulk_reply_prefix_dec [where sock = sock and p = "CHR ''*''" and n = n
        and k = "length xs" and rest = "concat (map bulk_reply_wire xs) @ rest"] assms
    by auto
  let ?n1 = "set_rcvq n sock q1"
  obtain q' where l: "recv_multi_bulk_loop (\<lambda>v d. v @ [d]) sock (int (length xs)) 0 out ?n1 =
            (Inr (), foldl (\<lambda>v d. v @ [d]) out (map bulk_reply_value xs), set_rcvq ?n1 sock q')"
    and q': "delivered q' = rest"
    using recv_multi_bulk_loop_wire [where sock = sock and xs = xs and len = "int (length xs)"
        and i = 0 and n = ?n1 and rest = rest and put = "\<lambda>v d. v @ [d]" and out = out]
      assms(1,2) q1
    by auto
  have "recv_multi_bulk_reply max_size sock out n =
          (Inr (int (length xs)), out @ map bulk_reply_value xs, set_rcvq n sock q')"
    using r l reserve_fits [OF assms(5)]
    by (simp add: recv_multi_bulk_reply_def REDIS_PREFIX_MULTI_BULK_REPLY_def foldl_push_back)
  with q' show ?thesis by blast
qed

lemma recv_multi_bulk_reply_set_wire:
  assumes "0 < sock" and "list_all bulk_reply_fits xs" and "int (length xs) \<le> LONG_MAX"
    and "delivered (rcvq (n sock)) =
           CHR ''*'' # dec (length xs) @ [CHR 0x0D, CHR 0x0A] @ concat (map bulk_reply_wire xs) @ rest"
  shows "\<exists>q'. recv_multi_bulk_reply_set sock out n =
            (Inr (int (length xs)), out \<union> set (map bulk_reply_value xs), set_rcvq n sock q')
          \<and> delivered q' = rest"
proof -
  obtain q1 where r: "recv_bulk_reply_prefix sock (CHR ''*'') n = (Inr (int (length xs)), set_rcvq n sock q1)"
    and q1: "delivered q1 = concat (map bulk_reply_wire xs) @ rest"
    using recv_bulk_reply_prefix_dec [where sock = sock and p = "CHR ''*''" and n = n
        and k = "length xs" and rest = "concat (map bulk_reply_wire xs) @ rest"] assms
    by auto
  let ?n1 = "set_rcvq n sock q1"
  obtain q' where l: "recv_multi_bulk_loop (\<lambda>v d. insert d v) sock (int (length xs)) 0 out ?n1 =
            (Inr (), foldl (\<lambda>v d. insert d v) out (map bulk_reply_value xs), set_rcvq ?n1 sock q')"
    and q': "delivered q' = rest"
    using recv_multi_bulk_loop_wire [where sock = sock and xs = xs and len = "int (length xs)"
        and i = 0 and n = ?n1 and rest = rest and put = "\<lambda>v d. insert d v" and out = out]
      assms(1,2) q1
    by auto
  have "recv_multi_bulk_reply_set sock out n =
          (Inr (int (length xs)), out \<union> set (map bulk_reply_value xs), set_rcvq n sock q')"
    using r l by (simp add: recv_multi_bulk_reply_set_def REDIS_PREFIX_MULTI_BULK_REPLY_def
        foldl_insert)
  with q' show ?thesis by blast
qed

lemma recv_multi_bulk_reply_no_key:
  assumes "0 < sock"
    and "delivered (rcvq (n sock)) = ''*-1'' @ [CHR 0x0D, CHR 0x0A] @ rest"
  shows "\<exists>q'. recv_multi_bulk_reply max_size sock out n =
            (Inl (key_error ''no such key''), out, set_rcvq n sock q') \<and> delivered q' = rest"
    and "\<exists>q'. recv_multi_bulk_reply_set sock outs n =
            (Inl (key_error ''no such key''), outs, set_rcvq n sock q') \<and> delivered q' = rest"
proof -
  obtain q' where r: "recv_bulk_reply_prefix sock (CHR ''*'') n = (Inr (- 1), set_rcvq n sock q')"
    and q': "delivered q' = rest"
    using recv_bulk_reply_prefix_minus_one [where sock = sock and p = "CHR ''*''" and n = n and rest = rest]
      assms by auto
  have "recv_multi_bulk_reply max_size sock out n = (Inl (key_error ''no such key''), out, set_rcvq n sock q')"
    using r by (simp add: recv_multi_bulk_reply_def REDIS_PREFIX_MULTI_BULK_REPLY_def)
  with q' show "\<exists>q'. recv_multi_bulk_reply max_size sock out n =
            (Inl (key_error ''no such key''), out, set_rcvq n sock q') \<and> delivered q' = rest"
    by blast
  have "recv_multi_bulk_reply_set sock outs n = (Inl (key_error ''no such key''), outs, set_rcvq n sock q')"
    using r by (simp add: recv_multi_bulk_reply_set_def REDIS_PREFIX_MULTI_BULK_REPLY_def)
  with q' show "\<exists>q'. recv_multi_bulk_reply_set sock outs n =
            (Inl (key_error ''no such key''), outs, set_rcvq n sock q') \<and> delivered q' = rest"
    by blast
qed

subsection \<open>Integer replies\<close>

lemma lexical_cast_roundtrip:
  assumes "LONG_MIN \<le> v" and "v \<le> LONG_MAX"
  shows "lexical_cast_int_type (lexical_cast_string v) = Inr v"
proof (cases "v < 0")
  case False
  then show ?thesis
    using assms lexical_cast_dec [of "nat v"] by (simp add: lexical_cast_string_def)
next
  case True
  have "list_all is_digit (dec (nat (- v)))" by (rule dec_all_digits)
  moreover have "dec (nat (- v)) \<noteq> []" by (rule dec_not_Nil)
  moreover have "int (digits_value (dec (nat (- v)))) = - v"
    using True by (simp add: digits_value_dec)
  ultimately show ?thesis
    using True assms by (simp add: lexical_cast_string_def lexical_cast_int_type_def Let_def)
qed

lemma lexical_cast_string_no_eol:
  "CHR 0x0A \<notin> set (lexical_cast_string v)"
  "lexical_cast_string v \<noteq> []"
  "last (lexical_cast_string v) \<noteq> CHR 0x0D \<and> last (lexical_cast_string v) \<noteq> CHR 0x0A"
  using dec_no_eol [of "CHR 0x0A"] last_dec_no_eol dec_not_Nil
  by (auto simp: lexical_cast_string_def)

lemma lexical_cast_error: "lexical_cast_int_type t = Inl e \<Longrightarrow> e = bad_lexical_cast"
  by (auto simp: lexical_cast_int_type_def Let_def split: list.splits if_splits)

lemma recv_int_reply_line:
  assumes "0 < sock" and "CHR 0x0A \<notin> set t" and "t = [] \<or> (last t \<noteq> CHR 0x0D \<and> last t \<noteq> CHR 0x0A)"
    and "delivered (rcvq (n sock)) = CHR '':'' # t @ [CHR 0x0D, CHR 0x0A] @ rest"
  shows "\<exists>q'. recv_int_reply sock n = (lexical_cast_int_type t, set_rcvq n sock q')
             \<and> delivered q' = rest"
proof -
  have 1: "delivered (rcvq (n sock)) = (CHR '':'' # t) @ [CHR 0x0D, CHR 0x0A] @ rest"
    using assms(4) by simp
  have 2: "CHR 0x0A \<notin> set (CHR '':'' # t)"
    using assms(2) by simp
  have 3: "CHR '':'' # t = [] \<or> (last (CHR '':'' # t) \<noteq> CHR 0x0D \<and> last (CHR '':'' # t) \<noteq> CHR 0x0A)"
    using assms(3) by auto
  obtain q' where r: "read_line sock 2048 n = (Inr (CHR '':'' # t), set_rcvq n sock q')"
    and q': "delivered q' = rest"
    using read_line_wire [where sock = sock and m = 2048 and n = n and x = "CHR '':'' # t" and rest = rest]
      assms(1) 1 2 3 by auto
  have "recv_int_reply sock n = (lexical_cast_int_type t, set_rcvq n sock q')"
    using r by (simp add: recv_int_reply_def io_bind_def string_front_def io_lift_def
        REDIS_PREFIX_INT_REPLY_def)
  with q' show ?thesis by blast
qed

lemma recv_int_reply_empty:
  assumes "0 < sock"
    and "delivered (rcvq (n sock)) = [CHR 0x0D, CHR 0x0A] @ rest"
  shows "\<exists>q'. recv_int_reply sock n =
            (Inl (protocol_error ''invalid integer reply; empty''), set_rcvq n sock q')
          \<and> delivered q' = rest"
proof -
  obtain q' where r: "read_line sock 2048 n = (Inr [], set_rcvq n sock q')"
    and q': "delivered q' = rest"
    using read_line_wire [where sock = sock and m = 2048 and n = n and x = "[]" and rest = rest]
      assms by auto
  have "recv_int_reply sock n =
          (Inl (protocol_error ''invalid integer reply; empty''), set_rcvq n sock q')"
    using r by (simp add: recv_int_reply_def io_bind_def io_throw_def)
  with q' show ?thesis by blast
qed

subsection \<open>What the decoders can throw\<close>

lemma io_bind_errors:
  assumes "fst (io_bind m f n) = Inl e"
    and "\<And>n e. fst (m n) = Inl e \<Longrightarrow> P e"
    and "\<And>x n e. fst (f x n) = Inl e \<Longrightarrow> P e"
  shows "P e"
proof (cases "m n")
  case (Pair r n')
  show ?thesis
  proof (cases r)
    case (Inl e')
    then have "e = e'" using Pair assms(1) by (simp add: io_bind_def)
    then show ?thesis using assms(2) [of n e'] Pair Inl by simp
  next
    case (Inr x)
    then have "fst (f x n') = Inl e" using Pair assms(1) by (simp add: io_bind_def)
    then show ?thesis by (rule assms(3))
  qed
qed

lemma read_line_loop_errors:
  "fst (read_line_loop m t found oss q) = Inl e \<Longrightarrow> e = connection_error ''connection was closed''"
proof (induction m t found oss q rule: read_line_loop.induct)
  case (1 m t found oss q)
  show ?case
  proof (cases "t < m \<and> \<not> found")
    case False
    then show ?thesis
      using "1.prems" by (subst (asm) read_line_loop.simps) auto
  next
    case c: True
    show ?thesis
    proof (cases "recv_peek buffer_size q = []")
      case True
      then show ?thesis
        using c "1.prems" by (subst (asm) read_line_loop.simps) simp
    next
      case ne: False
      show ?thesis
      proof (cases "memchr (recv_peek buffer_size q) (CHR 0x0A)")
        case None
        then have "fst (read_line_loop m t False (oss @ recv_peek buffer_size q)
                     (snd (recv (length (recv_peek buffer_size q)) q))) = Inl e"
          using c ne "1.prems" by (subst (asm) read_line_loop.simps) simp
        then show ?thesis by (rule "1.IH"(1) [OF c ne None])
      next
        case (Some eol)
        then have "fst (read_line_loop m t True (oss @ take (eol + 1) (recv_peek buffer_size q))
                     (snd (recv (eol + 1) q))) = Inl e"
          using c ne "1.prems" by (subst (asm) read_line_loop.simps) simp
        then show ?thesis by (rule "1.IH"(2) [OF c ne Some])
      qed
    qed
  qed
qed

lemma read_line_errors: "fst (read_line s m n) = Inl e \<Longrightarrow> decoder_error e"
proof -
  assume a: "fst (read_line s m n) = Inl e"
  obtain r q' where l: "read_line_loop m 0 False [] (rcvq (n s)) = (r, q')"
    by (cases "read_line_loop m 0 False [] (rcvq (n s))")
  show ?thesis
  proof (cases "s \<le> 0 \<or> m \<le> 0")
    case True
    then show ?thesis using a by (auto simp: read_line_def io_throw_def)
  next
    case False
    show ?thesis
    proof (cases r)
      case (Inl e')
      then have "e' = connection_error ''connection was closed''"
        using read_line_loop_errors [of m 0 False "[]" "rcvq (n s)" e'] l by simp
      moreover have "e = e'"
        using a False l Inl by (simp add: read_line_def on_rcvq_def read_line_q_def)
      ultimately show ?thesis by simp
    next
      case (Inr line)
      then show ?thesis
        using a False l by (simp add: read_line_def on_rcvq_def read_line_q_def)
    qed
  qed
qed

lemma read_n_q_cases:
  "(\<exists>e. fst (read_n_q k q) = Inl e \<and> decoder_error e)
   \<or> (\<exists>data. fst (read_n_q k q) = Inr data \<and> int (length data) = k)"
proof (cases "0 \<le> k \<and> k < LONG_MAX")
  case False
  then show ?thesis by (auto simp: read_n_q_def)
next
  case True
  then have "read_n_q k q = read_n_loop (nat k) [] q"
    by (simp add: read_n_q_def)
  then show ?thesis
    using read_n_loop_result [of "[]" "nat k" q] True by (auto split: if_splits)
qed

lemma read_n_errors: "fst (read_n s k n) = Inl e \<Longrightarrow> decoder_error e"
  using read_n_q_cases [of k "rcvq (n s)"]
  by (auto simp: read_n_def on_rcvq_def split: prod.splits)

lemma read_n_length: "fst (read_n s k n) = Inr data \<Longrightarrow> int (length data) = k"
  using read_n_q_cases [of k "rcvq (n s)"]
  by (auto simp: read_n_def on_rcvq_def split: prod.splits)

lemma lexical_cast_errors: "fst (io_lift (lexical_cast_int_type t) n) = Inl e \<Longrightarrow> decoder_error e"
  using lexical_cast_error [of t e] by (simp add: io_lift_def)

lemma decoder_error_not_runtime: "decoder_error e \<Longrightarrow> e \<noteq> runtime_error m"
  by (cases e) simp_all

lemma recv_single_line_reply_errors:
  "fst (recv_single_line_reply s n) = Inl e \<Longrightarrow> \<forall>m. e \<noteq> runtime_error m"
  unfolding recv_single_line_reply_def
  by (erule io_bind_errors [where P = "\<lambda>e. \<forall>m. e \<noteq> runtime_error m"])
     (auto simp: io_throw_def io_return_def dest: read_line_errors split: if_splits)

lemma recv_ok_reply_errors:
  "fst (recv_ok_reply s n) = Inl e \<Longrightarrow> \<forall>m. e \<noteq> runtime_error m"
  unfolding recv_ok_reply_def
  by (erule io_bind_errors [where P = "\<lambda>e. \<forall>m. e \<noteq> runtime_error m"])
     (auto simp: io_throw_def io_return_def dest: recv_single_line_reply_errors split: if_splits)

lemma recv_bulk_reply_prefix_errors:
  "fst (recv_bulk_reply_prefix s p n) = Inl e \<Longrightarrow> decoder_error e"
  unfolding recv_bulk_reply_prefix_def
  by (erule io_bind_errors [where P = decoder_error])
     (auto simp: io_throw_def dest: read_line_errors lexical_cast_errors split: if_splits)

lemma recv_int_reply_errors: "fst (recv_int_reply s n) = Inl e \<Longrightarrow> decoder_error e"
  unfolding recv_int_reply_def
  by (erule io_bind_errors [where P = decoder_error])
     (auto simp: io_throw_def dest: read_line_errors lexical_cast_errors split: if_splits)

lemma recv_int_ok_reply_errors: "fst (recv_int_ok_reply s n) = Inl e \<Longrightarrow> decoder_error e"
  unfolding recv_int_ok_reply_def
  by (erule io_bind_errors [where P = decoder_error])
     (auto simp: io_throw_def io_return_def dest: recv_int_reply_errors split: if_splits)

lemma bulk_data_errors:
  assumes "fst (io_bind (read_n s k) (\<lambda>data. io_lift (bulk_reply_data k data)) n) = Inl e"
  shows "decoder_error e"
proof (cases "read_n s k n")
  case (Pair r n')
  show ?thesis
  proof (cases r)
    case (Inl e')
    then have "e = e'" using Pair assms by (simp add: io_bind_def)
    then show ?thesis using read_n_errors [of s k n e'] Pair Inl by simp
  next
    case (Inr data)
    then have "int (length data) = k" using read_n_length [of s k n data] Pair by simp
    then show ?thesis
      using Pair Inr assms
      by (auto simp: io_bind_def io_lift_def bulk_reply_data_def split: if_splits)
  qed
qed

lemma recv_bulk_reply_errors: "fst (recv_bulk_reply s n) = Inl e \<Longrightarrow> decoder_error e"
  unfolding recv_bulk_reply_def
  by (erule io_bind_errors [where P = decoder_error])
     (auto simp: io_throw_def io_return_def
           dest: recv_bulk_reply_prefix_errors bulk_data_errors split: if_splits)

lemma recv_multi_bulk_loop_errors:
  "fst (recv_multi_bulk_loop put s len i out n) = Inl e \<Longrightarrow> decoder_error e"
proof (induction put s len i out n rule: recv_multi_bulk_loop.induct)
  case (1 put s len i out n)
  show ?case
  proof (cases "i < len")
    case False
    then show ?thesis
      using "1.prems" by (subst (asm) recv_multi_bulk_loop.simps) simp
  next
    case True
    obtain r n' where r: "recv_bulk_reply s n = (r, n')" by (cases "recv_bulk_reply s n")
    show ?thesis
    proof (cases r)
      case (Inl e')
      then have "e = e'"
        using True r "1.prems" by (subst (asm) recv_multi_bulk_loop.simps) simp
      then show ?thesis
        using recv_bulk_reply_errors [of s n e'] r Inl by simp
    next
      case (Inr d)
      then have "fst (recv_multi_bulk_loop put s len (i + 1) (put out d) n') = Inl e"
        using True r "1.prems" by (subst (asm) recv_multi_bulk_loop.simps) simp
      then show ?thesis
        by (rule "1.IH" [OF True r [symmetric, unfolded Inr] refl])
    qed
  qed
qed

lemma recv_multi_bulk_reply_errors:
  assumes "fst (recv_multi_bulk_reply max_size s out n) = Inl e"
  shows "decoder_error e"
proof (cases "recv_bulk_reply_prefix s REDIS_PREFIX_MULTI_BULK_REPLY n")
  case (Pair r n')
  show ?thesis
  proof (cases r)
    case (Inl e')
    then have "e = e'" using Pair assms by (simp add: recv_multi_bulk_reply_def)
    then show ?thesis
      using recv_bulk_reply_prefix_errors [of s REDIS_PREFIX_MULTI_BULK_REPLY n e'] Pair Inl
      by simp
  next
    case (Inr len)
    obtain r2 o2 n2 where l: "recv_multi_bulk_loop (\<lambda>v d. v @ [d]) s len 0 out n' = (r2, o2, n2)"
      by (cases "recv_multi_bulk_loop (\<lambda>v d. v @ [d]) s len 0 out n'")
    have "r2 = Inl e \<Longrightarrow> decoder_error e"
      using recv_multi_bulk_loop_errors [of "\<lambda>v d. v @ [d]" s len 0 out n' e] l by simp
    then show ?thesis
      using Pair Inr assms l
      by (auto simp: recv_multi_bulk_reply_def split: if_splits sum.splits)
  qed
qed

lemma recv_bulk_reply_no_length_error:
  "fst (recv_bulk_reply s n) \<noteq>
     Inl (protocol_error ''invalid bulk reply data; data of unexpected length'')"
  using recv_bulk_reply_errors [of s n "protocol_error ''invalid bulk reply data; data of unexpected length''"]
  by auto

lemma recv_multi_bulk_reply_too_long:
  assumes "0 < sock" and "int m \<le> LONG_MAX" and "max_size < length out + m"
    and "length out + m < 2 ^ 64"
    and "delivered (rcvq (n sock)) = CHR ''*'' # dec m @ [CHR 0x0D, CHR 0x0A] @ rest"
  shows "\<exists>q'. recv_multi_bulk_reply max_size sock out n =
            (Inl length_error, out, set_rcvq n sock q')
          \<and> delivered q' = rest"
proof -
  obtain q' where r: "recv_bulk_reply_prefix sock (CHR ''*'') n = (Inr (int m), set_rcvq n sock q')"
    and q': "delivered q' = rest"
    using recv_bulk_reply_prefix_dec [where sock = sock and p = "CHR ''*''" and n = n
        and k = m and rest = rest] assms(1,2,5)
    by auto
  have "int (length out) + int m < 2 ^ 64"
    using assms(4) by (metis of_nat_add of_nat_less_iff of_nat_numeral of_nat_power)
  then have "(int (length out) + int m) mod 2 ^ 64 = int (length out) + int m"
    by simp
  then have big: "max_size < nat ((int (length out) + int m) mod 2 ^ 64)"
    using assms(3) by simp
  have "recv_multi_bulk_reply max_size sock out n = (Inl length_error, out, set_rcvq n sock q')"
    using r big by (simp add: recv_multi_bulk_reply_def REDIS_PREFIX_MULTI_BULK_REPLY_def)
  with q' show ?thesis by blast
qed

subsection \<open>What the decoders return\<close>

text \<open>
  C2, as amended. Decoding a bulk reply on the socket \<open>sock\<close>, however the peer's bytes are
  cut. When the header declares the length -1 the result is the missing-value sentinel and
  no error, and only the header line is taken from the socket. When the header declares
  \<open>N = length payload\<close> (with \<open>N + 2\<close> below the largest \<^verbatim>\<open>long\<close>), exactly the \<open>N + 2\<close> bytes
  after the header are read, the last two are dropped without being looked at and the
  payload is returned; what follows stays on the socket, so a payload longer than declared
  is not noticed. When the peer closes before \<open>N + 2\<close> bytes have arrived the decoder throws
  the connection error of the exact read. And whatever the socket delivers, the decoder
  never throws the protocol error of its own length check: the exact read hands over the
  declared number of bytes or throws.
\<close>

theorem recv_bulk_reply_by_declared_length:
  assumes "0 < sock"
  shows "(delivered (rcvq (n sock)) = ''$-1'' @ [CHR 0x0D, CHR 0x0A] @ rest \<longrightarrow>
            (\<exists>q'. recv_bulk_reply sock n = (Inr missing_value, set_rcvq n sock q')
                 \<and> delivered q' = rest))
       \<and> (int (length payload) + 2 < LONG_MAX \<and> length tail = 2
            \<and> delivered (rcvq (n sock)) =
                CHR ''$'' # dec (length payload) @ [CHR 0x0D, CHR 0x0A] @ payload @ tail @ rest \<longrightarrow>
            (\<exists>q'. recv_bulk_reply sock n = (Inr payload, set_rcvq n sock q')
                 \<and> delivered q' = rest))
       \<and> (int N + 2 < LONG_MAX \<and> length short < N + 2
            \<and> delivered (rcvq (n sock)) = CHR ''$'' # dec N @ [CHR 0x0D, CHR 0x0A] @ short \<longrightarrow>
            fst (recv_bulk_reply sock n) = Inl (connection_error ''connection was closed''))
       \<and> fst (recv_bulk_reply sock n) \<noteq>
            Inl (protocol_error ''invalid bulk reply data; data of unexpected length'')"
  using assms recv_bulk_reply_missing [where sock = sock and n = n and rest = rest]
    recv_bulk_reply_payload [where sock = sock and n = n and rest = rest and payload = payload
      and tail = tail]
    recv_bulk_reply_closed_early [where sock = sock and n = n and N = N and short = short]
    recv_bulk_reply_no_length_error [of sock n]
  by blast

theorem recv_bulk_reply_by_declared_length_witness:
  "(\<exists>q'. recv_bulk_reply 3 (\<lambda>fd. \<lparr>rcvq = [''$-'', ''1'' @ [CHR 0x0D, CHR 0x0A] @ ''+OK''], sent = [], wr_err = None\<rparr>)
          = (Inr ''**nonexistent-key**'',
             set_rcvq (\<lambda>fd. \<lparr>rcvq = [''$-'', ''1'' @ [CHR 0x0D, CHR 0x0A] @ ''+OK''], sent = [], wr_err = None\<rparr>) 3 q')
        \<and> delivered q' = ''+OK'')
   \<and> (\<exists>q'. recv_bulk_reply 3 (\<lambda>fd. \<lparr>rcvq = [''$4'' @ [CHR 0x0D], [CHR 0x0A, CHR ''a'', CHR 0x0D],
                                       [CHR 0x0A, CHR ''b'', CHR 0x0D, CHR 0x0A] @ '':1''],
                                      sent = [], wr_err = None\<rparr>)
          = (Inr [CHR ''a'', CHR 0x0D, CHR 0x0A, CHR ''b''],
             set_rcvq (\<lambda>fd. \<lparr>rcvq = [''$4'' @ [CHR 0x0D], [CHR 0x0A, CHR ''a'', CHR 0x0D],
                                       [CHR 0x0A, CHR ''b'', CHR 0x0D, CHR 0x0A] @ '':1''],
                                      sent = [], wr_err = None\<rparr>) 3 q')
        \<and> delivered q' = '':1'')
   \<and> fst (recv_bulk_reply 3 (\<lambda>fd. \<lparr>rcvq = [''$4'' @ [CHR 0x0D, CHR 0x0A], ''ab'' @ [CHR 0x0D, CHR 0x0A], []],
                                    sent = [], wr_err = None\<rparr>))
       = Inl (connection_error ''connection was closed'')
   \<and> fst (recv_bulk_reply 3 (\<lambda>fd. \<lparr>rcvq = [''$4'' @ [CHR 0x0D, CHR 0x0A], ''ab'' @ [CHR 0x0D, CHR 0x0A], []],
                                    sent = [], wr_err = None\<rparr>))
       \<noteq> Inl (protocol_error ''invalid bulk reply data; data of unexpected length'')"
  using recv_bulk_reply_by_declared_length [where sock = 3 and rest = "''+OK''" and payload = "[]"
      and tail = "[]" and N = 0 and short = "[]"
      and n = "\<lambda>fd. \<lparr>rcvq = [''$-'', ''1'' @ [CHR 0x0D, CHR 0x0A] @ ''+OK''], sent = [], wr_err = None\<rparr>"]
    recv_bulk_reply_by_declared_length [where sock = 3 and rest = "'':1''"
      and payload = "[CHR ''a'', CHR 0x0D, CHR 0x0A, CHR ''b'']"
      and tail = "[CHR 0x0D, CHR 0x0A]" and N = 0 and short = "[]"
      and n = "\<lambda>fd. \<lparr>rcvq = [''$4'' @ [CHR 0x0D], [CHR 0x0A, CHR ''a'', CHR 0x0D],
                                       [CHR 0x0A, CHR ''b'', CHR 0x0D, CHR 0x0A] @ '':1''],
                                      sent = [], wr_err = None\<rparr>"]
    recv_bulk_reply_by_declared_length [where sock = 3 and rest = "[]" and payload = "[]"
      and tail = "[]" and N = 4 and short = "''ab'' @ [CHR 0x0D, CHR 0x0A]"
      and n = "\<lambda>fd. \<lparr>rcvq = [''$4'' @ [CHR 0x0D, CHR 0x0A], ''ab'' @ [CHR 0x0D, CHR 0x0A], []],
                                    sent = [], wr_err = None\<rparr>"]
  by (simp add: delivered_def dec.simps digit_char_def LONG_MAX_def missing_value_def)

text \<open>
  The third clause of C2 as the specification has it, that any mismatch between the
  declared and the read length is a protocol error, fails on both sides. A reply shorter
  than declared (\<open>$5\<close>, then two bytes, then the peer closes) is a connection error; a
  reply longer than declared (\<open>$3\<close>, then \<open>abcdef\<close>) is accepted as \<open>abc\<close>.
\<close>

theorem recv_bulk_reply_mismatch_counterexample:
  "\<not> is_protocol_error
       (fst (recv_bulk_reply 3 (quiet_net [''$5'' @ [CHR 0x0D, CHR 0x0A] @ ''ab'', []])))
   \<and> fst (recv_bulk_reply 3 (quiet_net [''$5'' @ [CHR 0x0D, CHR 0x0A] @ ''ab'', []]))
       = Inl (connection_error ''connection was closed'')
   \<and> \<not> is_protocol_error
       (fst (recv_bulk_reply 3
          (quiet_net [''$3'' @ [CHR 0x0D, CHR 0x0A] @ ''abcdef'' @ [CHR 0x0D, CHR 0x0A]])))
   \<and> fst (recv_bulk_reply 3
          (quiet_net [''$3'' @ [CHR 0x0D, CHR 0x0A] @ ''abcdef'' @ [CHR 0x0D, CHR 0x0A]]))
       = Inr ''abc''"
proof -
  have a: "fst (recv_bulk_reply 3 (quiet_net [''$5'' @ [CHR 0x0D, CHR 0x0A] @ ''ab'', []]))
       = Inl (connection_error ''connection was closed'')"
    using recv_bulk_reply_closed_early [where sock = 3 and N = 5 and short = "''ab''"
        and n = "quiet_net [''$5'' @ [CHR 0x0D, CHR 0x0A] @ ''ab'', []]"]
    by (simp add: quiet_net_def delivered_def dec.simps digit_char_def LONG_MAX_def)
  have b: "fst (recv_bulk_reply 3
          (quiet_net [''$3'' @ [CHR 0x0D, CHR 0x0A] @ ''abcdef'' @ [CHR 0x0D, CHR 0x0A]]))
       = Inr ''abc''"
    using recv_bulk_reply_payload [where sock = 3 and payload = "''abc''" and tail = "''de''"
        and rest = "''f'' @ [CHR 0x0D, CHR 0x0A]"
        and n = "quiet_net [''$3'' @ [CHR 0x0D, CHR 0x0A] @ ''abcdef'' @ [CHR 0x0D, CHR 0x0A]]"]
    by (auto simp: quiet_net_def delivered_def dec.simps digit_char_def LONG_MAX_def)
  from a b show ?thesis by simp
qed

text \<open>
  C3, as amended. Decoding a multi-bulk reply on the socket \<open>sock\<close>, however the peer's
  bytes are cut; \<open>max_size\<close> is the largest number of strings the vector can hold
  (\<^verbatim>\<open>max_size()\<close>). When the header declares the count -1 a \<open>key_error\<close> is thrown (not a
  protocol error), the output is left as it was and only the header line is taken from
  the socket; this holds for the vector and for the set overload. A declared count of 0
  returns 0 and leaves an empty vector empty. When the header declares \<open>M = length xs\<close>,
  the \<open>M\<close> bulk replies \<open>xs\<close> follow, and the vector can hold \<open>M\<close> more strings, exactly
  these \<open>M\<close> replies are decoded: their values are appended to the vector in order, \<open>M\<close> is
  returned, and what follows the last of them stays on the socket. The set overload
  reserves nothing and does the same for every \<open>M\<close>, inserting the values into the set.
  When the vector cannot hold \<open>M\<close> more strings the vector overload throws the
  \<^verbatim>\<open>std::length_error\<close> of \<^verbatim>\<open>reserve\<close> with the output as it was, and nothing after the header
  line is taken from the socket: no bulk reply is decoded.
\<close>

theorem recv_multi_bulk_reply_by_declared_count:
  assumes "0 < sock"
  shows "(delivered (rcvq (n sock)) = ''*-1'' @ [CHR 0x0D, CHR 0x0A] @ rest \<longrightarrow>
            (\<exists>q'. recv_multi_bulk_reply max_size sock out n =
                    (Inl (key_error ''no such key''), out, set_rcvq n sock q')
                 \<and> delivered q' = rest)
          \<and> (\<exists>q'. recv_multi_bulk_reply_set sock outs n =
                    (Inl (key_error ''no such key''), outs, set_rcvq n sock q')
                 \<and> delivered q' = rest))
       \<and> (delivered (rcvq (n sock)) = ''*0'' @ [CHR 0x0D, CHR 0x0A] @ rest \<longrightarrow>
            (\<exists>q'. recv_multi_bulk_reply max_size sock [] n = (Inr 0, [], set_rcvq n sock q')
                 \<and> delivered q' = rest))
       \<and> (list_all bulk_reply_fits xs \<and> int (length xs) \<le> LONG_MAX
            \<and> length out + length xs \<le> max_size
            \<and> delivered (rcvq (n sock)) =
                CHR ''*'' # dec (length xs) @ [CHR 0x0D, CHR 0x0A]
                  @ concat (map bulk_reply_wire xs) @ rest \<longrightarrow>
            (\<exists>q'. recv_multi_bulk_reply max_size sock out n =
                    (Inr (int (length xs)), out @ map bulk_reply_value xs, set_rcvq n sock q')
                 \<and> delivered q' = rest))
       \<and> (list_all bulk_reply_fits xs \<and> int (length xs) \<le> LONG_MAX
            \<and> delivered (rcvq (n sock)) =
                CHR ''*'' # dec (length xs) @ [CHR 0x0D, CHR 0x0A]
                  @ concat (map bulk_reply_wire xs) @ rest \<longrightarrow>
            (\<exists>q'. recv_multi_bulk_reply_set sock outs n =
                    (Inr (int (length xs)), outs \<union> set (map bulk_reply_value xs), set_rcvq n sock q')
                 \<and> delivered q' = rest))
       \<and> (int M \<le> LONG_MAX \<and> max_size < length out + M \<and> length out + M < 2 ^ 64
            \<and> delivered (rcvq (n sock)) = CHR ''*'' # dec M @ [CHR 0x0D, CHR 0x0A] @ rest \<longrightarrow>
            (\<exists>q'. recv_multi_bulk_reply max_size sock out n =
                    (Inl length_error, out, set_rcvq n sock q')
                 \<and> delivered q' = rest))"
proof -
  have zero: "delivered (rcvq (n sock)) = ''*0'' @ [CHR 0x0D, CHR 0x0A] @ rest \<Longrightarrow>
      \<exists>q'. recv_multi_bulk_reply max_size sock [] n = (Inr 0, [], set_rcvq n sock q')
          \<and> delivered q' = rest"
    using recv_multi_bulk_reply_wire [where sock = sock and xs = "[]" and n = n and rest = rest
        and out = "[]" and max_size = max_size] assms
    by (simp add: dec.simps digit_char_def LONG_MAX_def)
  show ?thesis
    using assms zero
      recv_multi_bulk_reply_no_key(1) [where sock = sock and n = n and rest = rest and out = out
        and max_size = max_size]
      recv_multi_bulk_reply_no_key(2) [where sock = sock and n = n and rest = rest and outs = outs]
      recv_multi_bulk_reply_wire [where sock = sock and xs = xs and n = n and rest = rest
        and out = out and max_size = max_size]
      recv_multi_bulk_reply_set_wire [where sock = sock and xs = xs and n = n and rest = rest
        and out = outs]
      recv_multi_bulk_reply_too_long [where sock = sock and m = M and n = n and rest = rest
        and out = out and max_size = max_size]
    by blast
qed

theorem recv_multi_bulk_reply_by_declared_count_witness:
  "(\<exists>q'. recv_multi_bulk_reply 1000 3 [''x'']
            (\<lambda>fd. \<lparr>rcvq = [''*-1'' @ [CHR 0x0D, CHR 0x0A]], sent = [], wr_err = None\<rparr>)
          = (Inl (key_error ''no such key''), [''x''],
             set_rcvq (\<lambda>fd. \<lparr>rcvq = [''*-1'' @ [CHR 0x0D, CHR 0x0A]], sent = [], wr_err = None\<rparr>) 3 q')
        \<and> delivered q' = [])
   \<and> (\<exists>q'. recv_multi_bulk_reply 1000 3 []
            (\<lambda>fd. \<lparr>rcvq = [''*0'' @ [CHR 0x0D, CHR 0x0A]], sent = [], wr_err = None\<rparr>)
          = (Inr 0, [],
             set_rcvq (\<lambda>fd. \<lparr>rcvq = [''*0'' @ [CHR 0x0D, CHR 0x0A]], sent = [], wr_err = None\<rparr>) 3 q')
        \<and> delivered q' = [])
   \<and> (\<exists>q'. recv_multi_bulk_reply 1000 3 []
            (\<lambda>fd. \<lparr>rcvq = [''*2'' @ [CHR 0x0D, CHR 0x0A] @ ''$1'' @ [CHR 0x0D, CHR 0x0A] @ ''a'',
                             [CHR 0x0D, CHR 0x0A] @ ''$1'' @ [CHR 0x0D, CHR 0x0A] @ ''b'' @ [CHR 0x0D, CHR 0x0A]],
                     sent = [], wr_err = None\<rparr>)
          = (Inr 2, [''a'', ''b''],
             set_rcvq (\<lambda>fd. \<lparr>rcvq = [''*2'' @ [CHR 0x0D, CHR 0x0A] @ ''$1'' @ [CHR 0x0D, CHR 0x0A] @ ''a'',
                             [CHR 0x0D, CHR 0x0A] @ ''$1'' @ [CHR 0x0D, CHR 0x0A] @ ''b'' @ [CHR 0x0D, CHR 0x0A]],
                     sent = [], wr_err = None\<rparr>) 3 q')
        \<and> delivered q' = [])
   \<and> (\<exists>q'. recv_multi_bulk_reply_set 3 {}
            (\<lambda>fd. \<lparr>rcvq = [''*2'' @ [CHR 0x0D, CHR 0x0A] @ ''$1'' @ [CHR 0x0D, CHR 0x0A] @ ''a'',
                             [CHR 0x0D, CHR 0x0A] @ ''$1'' @ [CHR 0x0D, CHR 0x0A] @ ''b'' @ [CHR 0x0D, CHR 0x0A]],
                     sent = [], wr_err = None\<rparr>)
          = (Inr 2, {''a'', ''b''},
             set_rcvq (\<lambda>fd. \<lparr>rcvq = [''*2'' @ [CHR 0x0D, CHR 0x0A] @ ''$1'' @ [CHR 0x0D, CHR 0x0A] @ ''a'',
                             [CHR 0x0D, CHR 0x0A] @ ''$1'' @ [CHR 0x0D, CHR 0x0A] @ ''b'' @ [CHR 0x0D, CHR 0x0A]],
                     sent = [], wr_err = None\<rparr>) 3 q')
        \<and> delivered q' = [])
   \<and> (\<exists>q'. recv_multi_bulk_reply 1000 3 [''x'']
            (\<lambda>fd. \<lparr>rcvq = [''*1000'' @ [CHR 0x0D, CHR 0x0A] @ ''$1'' @ [CHR 0x0D, CHR 0x0A]],
                     sent = [], wr_err = None\<rparr>)
          = (Inl length_error, [''x''],
             set_rcvq (\<lambda>fd. \<lparr>rcvq = [''*1000'' @ [CHR 0x0D, CHR 0x0A] @ ''$1'' @ [CHR 0x0D, CHR 0x0A]],
                     sent = [], wr_err = None\<rparr>) 3 q')
        \<and> delivered q' = ''$1'' @ [CHR 0x0D, CHR 0x0A])"
proof -
  have a: "\<exists>q'. recv_multi_bulk_reply 1000 3 [''x'']
            (\<lambda>fd. \<lparr>rcvq = [''*-1'' @ [CHR 0x0D, CHR 0x0A]], sent = [], wr_err = None\<rparr>)
          = (Inl (key_error ''no such key''), [''x''],
             set_rcvq (\<lambda>fd. \<lparr>rcvq = [''*-1'' @ [CHR 0x0D, CHR 0x0A]], sent = [], wr_err = None\<rparr>) 3 q')
        \<and> delivered q' = []"
    using recv_multi_bulk_reply_by_declared_count [where sock = 3 and rest = "[]" and xs = "[]"
        and out = "[''x'']" and outs = "{}" and max_size = 1000 and M = 0
        and n = "\<lambda>fd. \<lparr>rcvq = [''*-1'' @ [CHR 0x0D, CHR 0x0A]], sent = [], wr_err = None\<rparr>"]
    by (simp add: delivered_def)
  have b: "\<exists>q'. recv_multi_bulk_reply 1000 3 []
            (\<lambda>fd. \<lparr>rcvq = [''*0'' @ [CHR 0x0D, CHR 0x0A]], sent = [], wr_err = None\<rparr>)
          = (Inr 0, [],
             set_rcvq (\<lambda>fd. \<lparr>rcvq = [''*0'' @ [CHR 0x0D, CHR 0x0A]], sent = [], wr_err = None\<rparr>) 3 q')
        \<and> delivered q' = []"
    using recv_multi_bulk_reply_by_declared_count [where sock = 3 and rest = "[]" and xs = "[]"
        and out = "[]" and outs = "{}" and max_size = 1000 and M = 0
        and n = "\<lambda>fd. \<lparr>rcvq = [''*0'' @ [CHR 0x0D, CHR 0x0A]], sent = [], wr_err = None\<rparr>"]
    by (simp add: delivered_def)
  have c: "(\<exists>q'. recv_multi_bulk_reply 1000 3 []
            (\<lambda>fd. \<lparr>rcvq = [''*2'' @ [CHR 0x0D, CHR 0x0A] @ ''$1'' @ [CHR 0x0D, CHR 0x0A] @ ''a'',
                             [CHR 0x0D, CHR 0x0A] @ ''$1'' @ [CHR 0x0D, CHR 0x0A] @ ''b'' @ [CHR 0x0D, CHR 0x0A]],
                     sent = [], wr_err = None\<rparr>)
          = (Inr 2, [''a'', ''b''],
             set_rcvq (\<lambda>fd. \<lparr>rcvq = [''*2'' @ [CHR 0x0D, CHR 0x0A] @ ''$1'' @ [CHR 0x0D, CHR 0x0A] @ ''a'',
                             [CHR 0x0D, CHR 0x0A] @ ''$1'' @ [CHR 0x0D, CHR 0x0A] @ ''b'' @ [CHR 0x0D, CHR 0x0A]],
                     sent = [], wr_err = None\<rparr>) 3 q')
        \<and> delivered q' = [])
   \<and> (\<exists>q'. recv_multi_bulk_reply_set 3 {}
            (\<lambda>fd. \<lparr>rcvq = [''*2'' @ [CHR 0x0D, CHR 0x0A] @ ''$1'' @ [CHR 0x0D, CHR 0x0A] @ ''a'',
                             [CHR 0x0D, CHR 0x0A] @ ''$1'' @ [CHR 0x0D, CHR 0x0A] @ ''b'' @ [CHR 0x0D, CHR 0x0A]],
                     sent = [], wr_err = None\<rparr>)
          = (Inr 2, {''a'', ''b''},
             set_rcvq (\<lambda>fd. \<lparr>rcvq = [''*2'' @ [CHR 0x0D, CHR 0x0A] @ ''$1'' @ [CHR 0x0D, CHR 0x0A] @ ''a'',
                             [CHR 0x0D, CHR 0x0A] @ ''$1'' @ [CHR 0x0D, CHR 0x0A] @ ''b'' @ [CHR 0x0D, CHR 0x0A]],
                     sent = [], wr_err = None\<rparr>) 3 q')
        \<and> delivered q' = [])"
    using recv_multi_bulk_reply_by_declared_count [where sock = 3 and rest = "[]"
        and xs = "[Some ''a'', Some ''b'']" and out = "[]" and outs = "{}" and max_size = 1000 and M = 0
        and n = "\<lambda>fd. \<lparr>rcvq = [''*2'' @ [CHR 0x0D, CHR 0x0A] @ ''$1'' @ [CHR 0x0D, CHR 0x0A] @ ''a'',
                             [CHR 0x0D, CHR 0x0A] @ ''$1'' @ [CHR 0x0D, CHR 0x0A] @ ''b'' @ [CHR 0x0D, CHR 0x0A]],
                     sent = [], wr_err = None\<rparr>"]
    by (simp add: delivered_def dec.simps digit_char_def LONG_MAX_def bulk_reply_wire_def
        bulk_reply_value_def bulk_reply_fits_def insert_commute)
  have d: "\<exists>q'. recv_multi_bulk_reply 1000 3 [''x'']
            (\<lambda>fd. \<lparr>rcvq = [''*1000'' @ [CHR 0x0D, CHR 0x0A] @ ''$1'' @ [CHR 0x0D, CHR 0x0A]],
                     sent = [], wr_err = None\<rparr>)
          = (Inl length_error, [''x''],
             set_rcvq (\<lambda>fd. \<lparr>rcvq = [''*1000'' @ [CHR 0x0D, CHR 0x0A] @ ''$1'' @ [CHR 0x0D, CHR 0x0A]],
                     sent = [], wr_err = None\<rparr>) 3 q')
        \<and> delivered q' = ''$1'' @ [CHR 0x0D, CHR 0x0A]"
    using recv_multi_bulk_reply_by_declared_count [where sock = 3 and rest = "''$1'' @ [CHR 0x0D, CHR 0x0A]"
        and xs = "[]" and out = "[''x'']" and outs = "{}" and max_size = 1000 and M = 1000
        and n = "\<lambda>fd. \<lparr>rcvq = [''*1000'' @ [CHR 0x0D, CHR 0x0A] @ ''$1'' @ [CHR 0x0D, CHR 0x0A]],
                     sent = [], wr_err = None\<rparr>"]
    by (simp add: delivered_def dec.simps digit_char_def LONG_MAX_def)
  from a b c d show ?thesis by blast
qed

text \<open>
  The last clause of C3 as the specification has it, that every declared count \<open>M \<ge> 0\<close>
  leads to \<open>M\<close> decodes, fails for the vector overload: no implementation of
  \<^verbatim>\<open>std::vector<std::string>\<close> holds more than \<open>2 ^ 61\<close> strings, and on the header
  \<open>*4611686018427387904\<close> (\<open>2 ^ 62\<close>) the decoder throws \<^verbatim>\<open>std::length_error\<close> and leaves
  the bulk reply that follows unread.
\<close>

theorem recv_multi_bulk_reply_count_counterexample:
  "fst (recv_multi_bulk_reply (2 ^ 61) 3 []
         (quiet_net [CHR ''*'' # dec (2 ^ 62) @ [CHR 0x0D, CHR 0x0A]
                       @ ''$1'' @ [CHR 0x0D, CHR 0x0A] @ ''a'' @ [CHR 0x0D, CHR 0x0A]]))
     = Inl length_error
   \<and> fst (snd (recv_multi_bulk_reply (2 ^ 61) 3 []
         (quiet_net [CHR ''*'' # dec (2 ^ 62) @ [CHR 0x0D, CHR 0x0A]
                       @ ''$1'' @ [CHR 0x0D, CHR 0x0A] @ ''a'' @ [CHR 0x0D, CHR 0x0A]])))
     = []"
proof -
  have "(2::nat) ^ 61 < 0 + 2 ^ 62" "(0::nat) + 2 ^ 62 < 2 ^ 64" "int (2 ^ 62) \<le> LONG_MAX"
    by (simp_all add: LONG_MAX_def)
  then show ?thesis
    using recv_multi_bulk_reply_too_long [where sock = 3 and m = "2 ^ 62" and out = "[]"
        and max_size = "2 ^ 61"
        and rest = "''$1'' @ [CHR 0x0D, CHR 0x0A] @ ''a'' @ [CHR 0x0D, CHR 0x0A]"
        and n = "quiet_net [CHR ''*'' # dec (2 ^ 62) @ [CHR 0x0D, CHR 0x0A]
                       @ ''$1'' @ [CHR 0x0D, CHR 0x0A] @ ''a'' @ [CHR 0x0D, CHR 0x0A]]"]
    by (auto simp: quiet_net_def delivered_def simp del: dec.simps)
qed


text \<open>
  C4, as amended. Decoding an integer reply on the socket \<open>sock\<close>, however the peer's bytes
  are cut. The line \<open>:<v>\<close> for a \<^verbatim>\<open>long\<close> \<open>v\<close> yields \<open>v\<close>, so \<open>:42\<close> yields 42. A line
  whose content after the colon is not a number makes \<^verbatim>\<open>boost::lexical_cast\<close> throw
  \<^verbatim>\<open>bad_lexical_cast\<close>, which the decoder lets through: it is not a protocol error. An
  empty line throws the protocol error \<open>invalid integer reply; empty\<close>.
\<close>

theorem recv_int_reply_decodes:
  assumes "0 < sock"
  shows "(LONG_MIN \<le> v \<and> v \<le> LONG_MAX
            \<and> delivered (rcvq (n sock)) =
                CHR '':'' # lexical_cast_string v @ [CHR 0x0D, CHR 0x0A] @ rest \<longrightarrow>
            (\<exists>q'. recv_int_reply sock n = (Inr v, set_rcvq n sock q') \<and> delivered q' = rest))
       \<and> (lexical_cast_int_type t = Inl e \<and> CHR 0x0A \<notin> set t
            \<and> (t = [] \<or> (last t \<noteq> CHR 0x0D \<and> last t \<noteq> CHR 0x0A))
            \<and> delivered (rcvq (n sock)) = CHR '':'' # t @ [CHR 0x0D, CHR 0x0A] @ rest \<longrightarrow>
            (\<exists>q'. recv_int_reply sock n = (Inl bad_lexical_cast, set_rcvq n sock q')
                 \<and> delivered q' = rest))
       \<and> (delivered (rcvq (n sock)) = [CHR 0x0D, CHR 0x0A] @ rest \<longrightarrow>
            (\<exists>q'. recv_int_reply sock n =
                    (Inl (protocol_error ''invalid integer reply; empty''), set_rcvq n sock q')
                 \<and> delivered q' = rest))"
proof -
  have 1: "\<exists>q'. recv_int_reply sock n = (Inr v, set_rcvq n sock q') \<and> delivered q' = rest"
    if "LONG_MIN \<le> v" "v \<le> LONG_MAX"
      "delivered (rcvq (n sock)) = CHR '':'' # lexical_cast_string v @ [CHR 0x0D, CHR 0x0A] @ rest"
    using recv_int_reply_line [where sock = sock and n = n and rest = rest
        and t = "lexical_cast_string v"] that assms lexical_cast_string_no_eol [of v]
      lexical_cast_roundtrip [of v]
    by simp
  have 2: "\<exists>q'. recv_int_reply sock n = (Inl bad_lexical_cast, set_rcvq n sock q')
                 \<and> delivered q' = rest"
    if "lexical_cast_int_type t = Inl e" "CHR 0x0A \<notin> set t"
      "t = [] \<or> (last t \<noteq> CHR 0x0D \<and> last t \<noteq> CHR 0x0A)"
      "delivered (rcvq (n sock)) = CHR '':'' # t @ [CHR 0x0D, CHR 0x0A] @ rest"
    using recv_int_reply_line [where sock = sock and n = n and rest = rest and t = t]
      that assms lexical_cast_error [of t e]
    by simp
  from 1 2 recv_int_reply_empty [where sock = sock and n = n and rest = rest] assms
  show ?thesis by blast
qed

theorem recv_int_reply_decodes_witness:
  "(\<exists>q'. recv_int_reply 3 (\<lambda>fd. \<lparr>rcvq = ['':4'', ''2'' @ [CHR 0x0D, CHR 0x0A]], sent = [], wr_err = None\<rparr>)
          = (Inr 42, set_rcvq (\<lambda>fd. \<lparr>rcvq = ['':4'', ''2'' @ [CHR 0x0D, CHR 0x0A]], sent = [], wr_err = None\<rparr>) 3 q')
        \<and> delivered q' = [])
   \<and> (\<exists>q'. recv_int_reply 3 (\<lambda>fd. \<lparr>rcvq = ['':abc'' @ [CHR 0x0D, CHR 0x0A]], sent = [], wr_err = None\<rparr>)
          = (Inl bad_lexical_cast,
             set_rcvq (\<lambda>fd. \<lparr>rcvq = ['':abc'' @ [CHR 0x0D, CHR 0x0A]], sent = [], wr_err = None\<rparr>) 3 q')
        \<and> delivered q' = [])
   \<and> (\<exists>q'. recv_int_reply 3 (\<lambda>fd. \<lparr>rcvq = [[CHR 0x0D, CHR 0x0A]], sent = [], wr_err = None\<rparr>)
          = (Inl (protocol_error ''invalid integer reply; empty''),
             set_rcvq (\<lambda>fd. \<lparr>rcvq = [[CHR 0x0D, CHR 0x0A]], sent = [], wr_err = None\<rparr>) 3 q')
        \<and> delivered q' = [])"
proof -
  have abc: "lexical_cast_int_type ''abc'' = Inl bad_lexical_cast"
    by (simp add: lexical_cast_int_type_def Let_def is_digit_def)
  have a: "\<exists>q'. recv_int_reply 3 (\<lambda>fd. \<lparr>rcvq = ['':4'', ''2'' @ [CHR 0x0D, CHR 0x0A]], sent = [], wr_err = None\<rparr>)
          = (Inr 42, set_rcvq (\<lambda>fd. \<lparr>rcvq = ['':4'', ''2'' @ [CHR 0x0D, CHR 0x0A]], sent = [], wr_err = None\<rparr>) 3 q')
        \<and> delivered q' = []"
    using recv_int_reply_decodes [where sock = 3 and v = 42 and rest = "[]" and t = "''abc''"
        and e = bad_lexical_cast
        and n = "\<lambda>fd. \<lparr>rcvq = ['':4'', ''2'' @ [CHR 0x0D, CHR 0x0A]], sent = [], wr_err = None\<rparr>"]
    by (simp add: delivered_def lexical_cast_string_def dec.simps digit_char_def LONG_MAX_def
        LONG_MIN_def)
  have b: "\<exists>q'. recv_int_reply 3 (\<lambda>fd. \<lparr>rcvq = ['':abc'' @ [CHR 0x0D, CHR 0x0A]], sent = [], wr_err = None\<rparr>)
          = (Inl bad_lexical_cast,
             set_rcvq (\<lambda>fd. \<lparr>rcvq = ['':abc'' @ [CHR 0x0D, CHR 0x0A]], sent = [], wr_err = None\<rparr>) 3 q')
        \<and> delivered q' = []"
    using recv_int_reply_decodes [where sock = 3 and v = 42 and rest = "[]" and t = "''abc''"
        and e = bad_lexical_cast
        and n = "\<lambda>fd. \<lparr>rcvq = ['':abc'' @ [CHR 0x0D, CHR 0x0A]], sent = [], wr_err = None\<rparr>"] abc
    by (simp add: delivered_def)
  have c: "\<exists>q'. recv_int_reply 3 (\<lambda>fd. \<lparr>rcvq = [[CHR 0x0D, CHR 0x0A]], sent = [], wr_err = None\<rparr>)
          = (Inl (protocol_error ''invalid integer reply; empty''),
             set_rcvq (\<lambda>fd. \<lparr>rcvq = [[CHR 0x0D, CHR 0x0A]], sent = [], wr_err = None\<rparr>) 3 q')
        \<and> delivered q' = []"
    using recv_int_reply_decodes [where sock = 3 and v = 42 and rest = "[]" and t = "''abc''"
        and e = bad_lexical_cast
        and n = "\<lambda>fd. \<lparr>rcvq = [[CHR 0x0D, CHR 0x0A]], sent = [], wr_err = None\<rparr>"]
    by (simp add: delivered_def)
  from a b c show ?thesis by blast
qed

text \<open>
  The claim as the specification states it fails on \<open>:abc\<close>: what the decoder throws
  there is not a protocol error.
\<close>

theorem recv_int_reply_abc_counterexample:
  "\<not> is_protocol_error
       (fst (recv_int_reply 3
          (\<lambda>fd. \<lparr>rcvq = ['':abc'' @ [CHR 0x0D, CHR 0x0A]], sent = [], wr_err = None\<rparr>)))"
proof -
  have abc: "lexical_cast_int_type ''abc'' = Inl bad_lexical_cast"
    by (simp add: lexical_cast_int_type_def Let_def is_digit_def)
  have "\<exists>q'. recv_int_reply 3 (\<lambda>fd. \<lparr>rcvq = ['':abc'' @ [CHR 0x0D, CHR 0x0A]], sent = [], wr_err = None\<rparr>)
          = (lexical_cast_int_type ''abc'',
             set_rcvq (\<lambda>fd. \<lparr>rcvq = ['':abc'' @ [CHR 0x0D, CHR 0x0A]], sent = [], wr_err = None\<rparr>) 3 q')
        \<and> delivered q' = []"
    using recv_int_reply_line [where sock = 3 and rest = "[]" and t = "''abc''"
        and n = "\<lambda>fd. \<lparr>rcvq = ['':abc'' @ [CHR 0x0D, CHR 0x0A]], sent = [], wr_err = None\<rparr>"]
    by (simp add: delivered_def)
  then show ?thesis by (auto simp: abc)
qed

subsection \<open>The byte budget of the Line Reader\<close>

text \<open>
  C5. The line reader never enforces its byte budget: \<^verbatim>\<open>total_bytes_read\<close> stays 0, so
  for every positive \<open>max_size\<close> a line of any length is returned in full. The comment above
  \<^verbatim>\<open>read_line\<close> promises a blank string once \<open>max_size\<close> bytes have been read without a
  delimiter. Here the budget is 64 and the peer sends 70 letters before the delimiter: the
  first window of 64 bytes holds no delimiter and is consumed whole, and the 70 letters
  come back.
\<close>

theorem read_line_over_budget:
  "fst (read_line 3 64
          (\<lambda>fd. \<lparr>rcvq = [replicate 70 (CHR ''a'') @ [CHR 0x0D, CHR 0x0A]], sent = [], wr_err = None\<rparr>))
     = Inr (replicate 70 (CHR ''a''))
   \<and> replicate 70 (CHR ''a'') \<noteq> []"
proof -
  have "\<exists>q'. read_line 3 64
          (\<lambda>fd. \<lparr>rcvq = [replicate 70 (CHR ''a'') @ [CHR 0x0D, CHR 0x0A]], sent = [], wr_err = None\<rparr>)
        = (Inr (replicate 70 (CHR ''a'')),
           set_rcvq (\<lambda>fd. \<lparr>rcvq = [replicate 70 (CHR ''a'') @ [CHR 0x0D, CHR 0x0A]], sent = [], wr_err = None\<rparr>) 3 q')
      \<and> delivered q' = []"
    using read_line_wire [where sock = 3 and m = 64 and rest = "[]" and x = "replicate 70 (CHR ''a'')"
        and n = "\<lambda>fd. \<lparr>rcvq = [replicate 70 (CHR ''a'') @ [CHR 0x0D, CHR 0x0A]], sent = [], wr_err = None\<rparr>"]
    by (simp add: delivered_def)
  then show ?thesis by auto
qed

subsection \<open>The Router\<close>

text \<open>
  C6. With exactly one connection every key is routed to it, whatever the hash strategy
  \<open>f\<close> is: the strategy is not consulted. With more than one connection the index is the
  one the strategy returns, which for \<^verbatim>\<open>default_hasher\<close> is the hash of the key modulo the
  number of connections, always in range. The socket selected depends on nothing but the
  key, the strategy and the connection sequence.
\<close>

theorem get_socket_routing:
  "(length (connections c) = 1 \<longrightarrow>
      get_socket (c\<lparr>hasher := f\<rparr>) key = Inr (socket (connections c ! 0)))
   \<and> (1 < length (connections c) \<and> hasher c = default_hasher boost_hash \<longrightarrow>
        boost_hash key mod length (connections c) < length (connections c)
      \<and> get_socket c key =
          Inr (socket (connections c ! (boost_hash key mod length (connections c)))))
   \<and> (1 < length (connections c) \<and> hasher c key (connections c) < length (connections c) \<longrightarrow>
        get_socket c key = Inr (socket (connections c ! hasher c key (connections c))))
   \<and> (connections c' = connections c \<and> hasher c' = hasher c \<longrightarrow>
        get_socket c' key = get_socket c key)"
proof -
  have one: "length (connections c) = 1 \<Longrightarrow>
      get_socket (c\<lparr>hasher := f\<rparr>) key = Inr (socket (connections c ! 0))"
    by (simp add: get_socket_def)
  have strategy: "1 < length (connections c) \<Longrightarrow>
      hasher c key (connections c) < length (connections c) \<Longrightarrow>
      get_socket c key = Inr (socket (connections c ! hasher c key (connections c)))"
    by (simp add: get_socket_def Let_def)
  have range: "1 < length (connections c) \<Longrightarrow>
      boost_hash key mod length (connections c) < length (connections c)"
    by (intro mod_less_divisor) auto
  have dflt: "1 < length (connections c) \<Longrightarrow> hasher c = default_hasher boost_hash \<Longrightarrow>
      get_socket c key =
        Inr (socket (connections c ! (boost_hash key mod length (connections c))))"
    using strategy range by (simp add: default_hasher_def)
  have det: "connections c' = connections c \<Longrightarrow> hasher c' = hasher c \<Longrightarrow>
      get_socket c' key = get_socket c key"
    by (simp add: get_socket_def Let_def)
  from one strategy range dflt det show ?thesis by blast
qed

theorem get_socket_routing_witness:
  "get_socket \<lparr>connections = [\<lparr>host = ''a'', port = 6379, dbindex = 0, socket = 3\<rparr>],
               hasher = (\<lambda>key cons. 7)\<rparr> ''key'' = Inr 3
   \<and> get_socket \<lparr>connections = [\<lparr>host = ''a'', port = 6379, dbindex = 0, socket = 3\<rparr>,
                                \<lparr>host = ''b'', port = 6379, dbindex = 0, socket = 4\<rparr>],
                 hasher = default_hasher length\<rparr> ''key'' = Inr 4
   \<and> get_socket \<lparr>connections = [\<lparr>host = ''a'', port = 6379, dbindex = 0, socket = 3\<rparr>,
                                \<lparr>host = ''b'', port = 6379, dbindex = 0, socket = 4\<rparr>],
                 hasher = (\<lambda>key cons. 0)\<rparr> ''key'' = Inr 3"
  using get_socket_routing [where
      c = "\<lparr>connections = [\<lparr>host = ''a'', port = 6379, dbindex = 0, socket = 3\<rparr>],
             hasher = default_hasher length\<rparr>"
      and f = "\<lambda>key cons. 7" and key = "''key''" and boost_hash = length
      and c' = "\<lparr>connections = [\<lparr>host = ''a'', port = 6379, dbindex = 0, socket = 3\<rparr>],
             hasher = default_hasher length\<rparr>"]
    get_socket_routing [where
      c = "\<lparr>connections = [\<lparr>host = ''a'', port = 6379, dbindex = 0, socket = 3\<rparr>,
                            \<lparr>host = ''b'', port = 6379, dbindex = 0, socket = 4\<rparr>],
             hasher = default_hasher length\<rparr>"
      and f = "default_hasher length" and key = "''key''" and boost_hash = length
      and c' = "\<lparr>connections = [\<lparr>host = ''a'', port = 6379, dbindex = 0, socket = 3\<rparr>,
                            \<lparr>host = ''b'', port = 6379, dbindex = 0, socket = 4\<rparr>],
             hasher = default_hasher length\<rparr>"]
    get_socket_routing [where
      c = "\<lparr>connections = [\<lparr>host = ''a'', port = 6379, dbindex = 0, socket = 3\<rparr>,
                            \<lparr>host = ''b'', port = 6379, dbindex = 0, socket = 4\<rparr>],
             hasher = (\<lambda>key cons. 0)\<rparr>"
      and f = "\<lambda>key cons. 0" and key = "''key''" and boost_hash = length
      and c' = "\<lparr>connections = [\<lparr>host = ''a'', port = 6379, dbindex = 0, socket = 3\<rparr>,
                            \<lparr>host = ''b'', port = 6379, dbindex = 0, socket = 4\<rparr>],
             hasher = (\<lambda>key cons. 0)\<rparr>"]
  by (simp add: mod_Suc)

subsection \<open>Sending\<close>

lemma add_sent_simps [simp]:
  "sent (add_sent n fd buf fd') = (if fd' = fd then sent (n fd) @ buf else sent (n fd'))"
  "rcvq (add_sent n fd buf fd') = rcvq (n fd')"
  "wr_err (add_sent n fd buf fd') = wr_err (n fd')"
  by (simp_all add: add_sent_def)

lemma send_ok: "wr_err (n s) = None \<Longrightarrow> send s msg n = (Inr (), add_sent n s msg)"
  by (simp add: send_def anetWrite_def)

lemma send_failed:
  "wr_err (n s) = Some e \<Longrightarrow> send s msg n = (Inl (connection_error e), n)"
  by (simp add: send_def anetWrite_def)

subsection \<open>Status replies\<close>

lemma recv_single_line_reply_status:
  assumes "0 < sock" and "CHR 0x0A \<notin> set st"
    and "st = [] \<or> (last st \<noteq> CHR 0x0D \<and> last st \<noteq> CHR 0x0A)"
    and "delivered (rcvq (n sock)) = CHR ''+'' # st @ [CHR 0x0D, CHR 0x0A] @ rest"
  shows "\<exists>q'. recv_single_line_reply sock n = (Inr st, set_rcvq n sock q') \<and> delivered q' = rest"
proof -
  have 1: "delivered (rcvq (n sock)) = (CHR ''+'' # st) @ [CHR 0x0D, CHR 0x0A] @ rest"
    using assms(4) by simp
  have 2: "CHR 0x0A \<notin> set (CHR ''+'' # st)"
    using assms(2) by simp
  have 3: "CHR ''+'' # st = [] \<or> (last (CHR ''+'' # st) \<noteq> CHR 0x0D \<and> last (CHR ''+'' # st) \<noteq> CHR 0x0A)"
    using assms(3) by auto
  obtain q' where r: "read_line sock 2048 n = (Inr (CHR ''+'' # st), set_rcvq n sock q')"
    and q': "delivered q' = rest"
    using read_line_wire [where sock = sock and m = 2048 and n = n and x = "CHR ''+'' # st" and rest = rest]
      assms(1) 1 2 3 by auto
  have "recv_single_line_reply sock n = (Inr st, set_rcvq n sock q')"
    using r by (simp add: recv_single_line_reply_def io_bind_def string_front_def io_return_def
        REDIS_PREFIX_STATUS_REPLY_ERROR_def REDIS_PREFIX_STATUS_REPLY_VALUE_def)
  with q' show ?thesis by blast
qed

lemma recv_ok_reply_status:
  assumes "0 < sock" and "CHR 0x0A \<notin> set st"
    and "st = [] \<or> (last st \<noteq> CHR 0x0D \<and> last st \<noteq> CHR 0x0A)"
    and "delivered (rcvq (n sock)) = CHR ''+'' # st @ [CHR 0x0D, CHR 0x0A] @ rest"
  shows "\<exists>q'. recv_ok_reply sock n =
            (if st = ''OK'' then Inr () else Inl (protocol_error ''expected OK response''),
             set_rcvq n sock q')
          \<and> delivered q' = rest"
proof -
  obtain q' where r: "recv_single_line_reply sock n = (Inr st, set_rcvq n sock q')"
    and q': "delivered q' = rest"
    using recv_single_line_reply_status [where sock = sock and n = n and st = st and rest = rest]
      assms by auto
  have "recv_ok_reply sock n =
          (if st = ''OK'' then Inr () else Inl (protocol_error ''expected OK response''),
           set_rcvq n sock q')"
    using r by (simp add: recv_ok_reply_def io_bind_def io_return_def io_throw_def
        REDIS_STATUS_REPLY_OK_def)
  with q' show ?thesis by blast
qed

lemma send_recv_ok_reply:
  assumes "0 < sock" and "wr_err (n sock) = None" and "CHR 0x0A \<notin> set st"
    and "st = [] \<or> (last st \<noteq> CHR 0x0D \<and> last st \<noteq> CHR 0x0A)"
    and "delivered (rcvq (n sock)) = CHR ''+'' # st @ [CHR 0x0D, CHR 0x0A] @ rest"
  shows "\<exists>q'. io_bind (send sock msg) (\<lambda>u. recv_ok_reply sock) n =
            (if st = ''OK'' then Inr () else Inl (protocol_error ''expected OK response''),
             set_rcvq (add_sent n sock msg) sock q')
          \<and> delivered q' = rest"
proof -
  have "\<exists>q'. recv_ok_reply sock (add_sent n sock msg) =
            (if st = ''OK'' then Inr () else Inl (protocol_error ''expected OK response''),
             set_rcvq (add_sent n sock msg) sock q')
          \<and> delivered q' = rest"
    using recv_ok_reply_status [where sock = sock and n = "add_sent n sock msg" and st = st
        and rest = rest] assms
    by simp
  then show ?thesis
    using assms(2) by (simp add: io_bind_def send_ok)
qed

subsection \<open>Whole-client operations\<close>

text \<open>
  C8. With more than one connection \<^verbatim>\<open>auth\<close>, \<^verbatim>\<open>select\<close> and \<^verbatim>\<open>flushall\<close> throw and leave
  the network as it was: nothing is sent. With exactly one connection \<open>con\<close> each writes
  its command on the socket of \<open>con\<close> and reads one status reply from it: the reply \<open>+OK\<close>
  makes the operation succeed, any other status \<open>+<st>\<close> is the protocol error
  \<open>expected OK response\<close>. Either way the command is the only thing written, and the
  reply line the only thing read.
\<close>

theorem whole_client_operations:
  "(1 < length (connections c) \<longrightarrow>
        auth c pass n = (Inl (runtime_error ''feature is not available in cluster mode''), n)
      \<and> select c db n = (Inl (runtime_error ''feature is not available in cluster mode''), n)
      \<and> flushall c n = (Inl (runtime_error ''feature is not available in cluster mode''), n))
   \<and> (connections c = [con] \<and> 0 < socket con \<and> wr_err (n (socket con)) = None
        \<and> CHR 0x0A \<notin> set st \<and> (st = [] \<or> (last st \<noteq> CHR 0x0D \<and> last st \<noteq> CHR 0x0A))
        \<and> delivered (rcvq (n (socket con))) = CHR ''+'' # st @ [CHR 0x0D, CHR 0x0A] @ rest \<longrightarrow>
        (\<exists>q'. auth c pass n =
                (if st = ''OK'' then Inr () else Inl (protocol_error ''expected OK response''),
                 set_rcvq (add_sent n (socket con) (to_string (shl (makecmd ''AUTH'') pass)))
                   (socket con) q')
             \<and> delivered q' = rest)
      \<and> (\<exists>q'. select c db n =
                (if st = ''OK'' then Inr () else Inl (protocol_error ''expected OK response''),
                 set_rcvq (add_sent n (socket con) (to_string (shl_int (makecmd ''SELECT'') db)))
                   (socket con) q')
             \<and> delivered q' = rest)
      \<and> (\<exists>q'. flushall c n =
                (if st = ''OK'' then Inr () else Inl (protocol_error ''expected OK response''),
                 set_rcvq (add_sent n (socket con) (to_string (makecmd ''FLUSHALL'')))
                   (socket con) q')
             \<and> delivered q' = rest))"
proof -
  have many: "1 < length (connections c) \<Longrightarrow>
        auth c pass n = (Inl (runtime_error ''feature is not available in cluster mode''), n)
      \<and> select c db n = (Inl (runtime_error ''feature is not available in cluster mode''), n)
      \<and> flushall c n = (Inl (runtime_error ''feature is not available in cluster mode''), n)"
    by (simp add: auth_def select_def flushall_def io_throw_def)
  have one: "\<exists>q'. io_bind (send (socket con) msg) (\<lambda>u. recv_ok_reply (socket con)) n =
            (if st = ''OK'' then Inr () else Inl (protocol_error ''expected OK response''),
             set_rcvq (add_sent n (socket con) msg) (socket con) q')
          \<and> delivered q' = rest"
    if "0 < socket con" "wr_err (n (socket con)) = None" "CHR 0x0A \<notin> set st"
      "st = [] \<or> (last st \<noteq> CHR 0x0D \<and> last st \<noteq> CHR 0x0A)"
      "delivered (rcvq (n (socket con))) = CHR ''+'' # st @ [CHR 0x0D, CHR 0x0A] @ rest"
    for msg
    using send_recv_ok_reply [where sock = "socket con" and n = n and st = st and rest = rest
        and msg = msg] that
    by simp
  show ?thesis
    using many one by (auto simp: auth_def select_def flushall_def)
qed


theorem whole_client_operations_witness:
  "auth cluster_client ''pw'' (quiet_net []) =
     (Inl (runtime_error ''feature is not available in cluster mode''), quiet_net [])
   \<and> select cluster_client 1 (quiet_net []) =
     (Inl (runtime_error ''feature is not available in cluster mode''), quiet_net [])
   \<and> flushall cluster_client (quiet_net []) =
     (Inl (runtime_error ''feature is not available in cluster mode''), quiet_net [])
   \<and> (\<exists>q'. auth single_client ''pw'' (quiet_net [''+OK'' @ [CHR 0x0D, CHR 0x0A]]) =
          (Inr (),
           set_rcvq (add_sent (quiet_net [''+OK'' @ [CHR 0x0D, CHR 0x0A]]) 3
                       (to_string (shl (makecmd ''AUTH'') ''pw''))) 3 q')
        \<and> delivered q' = [])
   \<and> (\<exists>q'. select single_client 1 (quiet_net [''+OK'' @ [CHR 0x0D, CHR 0x0A]]) =
          (Inr (),
           set_rcvq (add_sent (quiet_net [''+OK'' @ [CHR 0x0D, CHR 0x0A]]) 3
                       (to_string (shl_int (makecmd ''SELECT'') 1))) 3 q')
        \<and> delivered q' = [])
   \<and> (\<exists>q'. flushall single_client (quiet_net [''+PONG'' @ [CHR 0x0D, CHR 0x0A]]) =
          (Inl (protocol_error ''expected OK response''),
           set_rcvq (add_sent (quiet_net [''+PONG'' @ [CHR 0x0D, CHR 0x0A]]) 3
                       (to_string (makecmd ''FLUSHALL''))) 3 q')
        \<and> delivered q' = [])"
proof -
  have con: "connections single_client =
      [\<lparr>host = ''localhost'', port = 6379, dbindex = 0, socket = 3\<rparr>]"
    by (simp add: single_client_def)
  have many: "1 < length (connections cluster_client)"
    by (simp add: cluster_client_def)
  have a: "auth cluster_client ''pw'' (quiet_net []) =
       (Inl (runtime_error ''feature is not available in cluster mode''), quiet_net [])
     \<and> select cluster_client 1 (quiet_net []) =
       (Inl (runtime_error ''feature is not available in cluster mode''), quiet_net [])
     \<and> flushall cluster_client (quiet_net []) =
       (Inl (runtime_error ''feature is not available in cluster mode''), quiet_net [])"
    using whole_client_operations [where c = cluster_client and n = "quiet_net []"
        and pass = "''pw''" and db = 1 and st = "[]" and rest = "[]"
        and con = "\<lparr>host = ''localhost'', port = 6379, dbindex = 0, socket = 3\<rparr>"] many
    by blast
  have b: "(\<exists>q'. auth single_client ''pw'' (quiet_net [''+OK'' @ [CHR 0x0D, CHR 0x0A]]) =
          (Inr (),
           set_rcvq (add_sent (quiet_net [''+OK'' @ [CHR 0x0D, CHR 0x0A]]) 3
                       (to_string (shl (makecmd ''AUTH'') ''pw''))) 3 q')
        \<and> delivered q' = [])
     \<and> (\<exists>q'. select single_client 1 (quiet_net [''+OK'' @ [CHR 0x0D, CHR 0x0A]]) =
          (Inr (),
           set_rcvq (add_sent (quiet_net [''+OK'' @ [CHR 0x0D, CHR 0x0A]]) 3
                       (to_string (shl_int (makecmd ''SELECT'') 1))) 3 q')
        \<and> delivered q' = [])"
    using whole_client_operations [where c = single_client
        and n = "quiet_net [''+OK'' @ [CHR 0x0D, CHR 0x0A]]"
        and pass = "''pw''" and db = 1 and st = "''OK''" and rest = "[]"
        and con = "\<lparr>host = ''localhost'', port = 6379, dbindex = 0, socket = 3\<rparr>"] con
    by (simp add: quiet_net_def delivered_def)
  have c: "\<exists>q'. flushall single_client (quiet_net [''+PONG'' @ [CHR 0x0D, CHR 0x0A]]) =
          (Inl (protocol_error ''expected OK response''),
           set_rcvq (add_sent (quiet_net [''+PONG'' @ [CHR 0x0D, CHR 0x0A]]) 3
                       (to_string (makecmd ''FLUSHALL''))) 3 q')
        \<and> delivered q' = []"
    using whole_client_operations [where c = single_client
        and n = "quiet_net [''+PONG'' @ [CHR 0x0D, CHR 0x0A]]"
        and pass = "''pw''" and db = 1 and st = "''PONG''" and rest = "[]"
        and con = "\<lparr>host = ''localhost'', port = 6379, dbindex = 0, socket = 3\<rparr>"] con
    by (simp add: quiet_net_def delivered_def)
  from a b c show ?thesis by blast
qed

subsection \<open>Routing a key vector\<close>

lemma get_socket_keys_loop_same:
  assumes "\<forall>k\<in>set keys. get_socket c k = Inr s"
  shows "i \<le> length keys \<Longrightarrow> (0 < i \<longrightarrow> sock = s) \<Longrightarrow> i < length keys \<or> 0 < i \<Longrightarrow>
         get_socket_keys_loop c keys i sock = Inr s"
proof (induction "length keys - i" arbitrary: i sock)
  case 0
  then show ?case by (subst get_socket_keys_loop.simps) auto
next
  case (Suc d)
  then have lt: "i < length keys" by simp
  then have r: "get_socket c (keys ! i) = Inr s" using assms by simp
  have "get_socket_keys_loop c keys (i + 1) s = Inr s"
    using Suc.hyps(2) lt by (intro Suc.hyps(1)) auto
  then show ?case
    using lt r Suc.prems(2) by (subst get_socket_keys_loop.simps) auto
qed

lemma get_socket_keys_loop_differ:
  assumes "\<forall>k\<in>set keys. \<exists>s. get_socket c k = Inr s"
    and "j < length keys" and "get_socket c (keys ! j) \<noteq> Inr sock"
  shows "0 < i \<Longrightarrow> i \<le> j \<Longrightarrow>
         get_socket_keys_loop c keys i sock = Inl (runtime_error ''not possible in cluster mode'')"
proof (induction "j - i" arbitrary: i)
  case 0
  then have ij: "i = j" by simp
  obtain s where s: "get_socket c (keys ! j) = Inr s"
    using assms(1,2) by (meson nth_mem)
  then have "s \<noteq> sock" using assms(3) by auto
  then show ?case
    using ij assms(2) s "0.prems"(1) by (subst get_socket_keys_loop.simps) auto
next
  case (Suc d)
  then have lt: "i < j" by simp
  then have il: "i < length keys" using assms(2) by simp
  obtain s where s: "get_socket c (keys ! i) = Inr s"
    using assms(1) il by (meson nth_mem)
  show ?case
  proof (cases "s = sock")
    case True
    have "get_socket_keys_loop c keys (i + 1) sock = Inl (runtime_error ''not possible in cluster mode'')"
      using Suc.hyps(2) lt by (intro Suc.hyps(1)) auto
    then show ?thesis
      using il s True by (subst get_socket_keys_loop.simps) auto
  next
    case False
    then show ?thesis
      using il s Suc.prems(1) by (subst get_socket_keys_loop.simps) auto
  qed
qed

lemma get_socket_keys_first:
  assumes "keys \<noteq> []" and "get_socket c (keys ! 0) = Inr s"
  shows "get_socket_keys c keys = get_socket_keys_loop c keys 1 s"
  using assms
  by (simp add: get_socket_keys_def) (subst get_socket_keys_loop.simps, simp)

lemma get_socket_keys_same:
  assumes "keys \<noteq> []" and "\<forall>k\<in>set keys. get_socket c k = Inr s"
  shows "get_socket_keys c keys = Inr s"
proof -
  have "get_socket c (keys ! 0) = Inr s" using assms by simp
  then have "get_socket_keys c keys = get_socket_keys_loop c keys 1 s"
    using assms(1) by (rule get_socket_keys_first [rotated])
  also have "\<dots> = Inr s"
    using assms by (intro get_socket_keys_loop_same) (auto simp: Suc_le_eq)
  finally show ?thesis .
qed

lemma get_socket_keys_differ:
  assumes "\<forall>k\<in>set keys. \<exists>s. get_socket c k = Inr s"
    and "a \<in> set keys" and "b \<in> set keys" and "get_socket c a \<noteq> get_socket c b"
  shows "get_socket_keys c keys = Inl (runtime_error ''not possible in cluster mode'')"
proof -
  have ne: "keys \<noteq> []" using assms(2) by auto
  then obtain s0 where s0: "get_socket c (keys ! 0) = Inr s0"
    using assms(1) by (metis length_greater_0_conv nth_mem)
  have "\<exists>k\<in>set keys. get_socket c k \<noteq> Inr s0"
    using assms(2,3,4) by metis
  then obtain j where j: "j < length keys" and d: "get_socket c (keys ! j) \<noteq> Inr s0"
    by (metis in_set_conv_nth)
  have j0: "0 < j" using d s0 by (cases j) auto
  have "get_socket_keys c keys = get_socket_keys_loop c keys 1 s0"
    using ne s0 by (rule get_socket_keys_first)
  also have "\<dots> = Inl (runtime_error ''not possible in cluster mode'')"
    using j0 by (intro get_socket_keys_loop_differ [OF assms(1) j d]) auto
  finally show ?thesis .
qed

lemma get_socket_keys_cases:
  assumes "keys \<noteq> []" and "\<forall>k\<in>set keys. \<exists>s. get_socket c k = Inr s"
  shows "(\<exists>s. (\<forall>k\<in>set keys. get_socket c k = Inr s) \<and> get_socket_keys c keys = Inr s)
       \<or> get_socket_keys c keys = Inl (runtime_error ''not possible in cluster mode'')"
proof (cases "\<exists>a\<in>set keys. \<exists>b\<in>set keys. get_socket c a \<noteq> get_socket c b")
  case True
  then show ?thesis using get_socket_keys_differ [OF assms(2)] by blast
next
  case False
  obtain s where "get_socket c (hd keys) = Inr s"
    using assms by (meson hd_in_set)
  then have "\<forall>k\<in>set keys. get_socket c k = Inr s"
    using False assms(1) by (metis hd_in_set)
  then show ?thesis using get_socket_keys_same [OF assms(1)] by blast
qed

subsection \<open>The decoders write nothing\<close>

lemma io_bind_sent:
  assumes "\<And>n. sent (snd (m n) fd) = sent (n fd)"
    and "\<And>x n. sent (snd (f x n) fd) = sent (n fd)"
  shows "sent (snd (io_bind m f n) fd) = sent (n fd)"
proof (cases "m n")
  case (Pair r n')
  then have "sent (n' fd) = sent (n fd)" using assms(1) [of n] by simp
  then show ?thesis
    using Pair assms(2) by (cases r) (simp_all add: io_bind_def)
qed

lemma on_rcvq_sent: "sent (snd (on_rcvq s rd n) fd) = sent (n fd)"
  by (simp add: on_rcvq_def split: prod.split)

lemma read_line_sent: "sent (snd (read_line s m n) fd) = sent (n fd)"
  by (simp add: read_line_def io_throw_def on_rcvq_sent)

lemma read_n_sent: "sent (snd (read_n s k n) fd) = sent (n fd)"
  by (simp add: read_n_def on_rcvq_sent)

lemma recv_single_line_reply_sent: "sent (snd (recv_single_line_reply s n) fd) = sent (n fd)"
  unfolding recv_single_line_reply_def
  by (rule io_bind_sent) (simp_all add: read_line_sent io_throw_def io_return_def)

lemma recv_ok_reply_sent: "sent (snd (recv_ok_reply s n) fd) = sent (n fd)"
  unfolding recv_ok_reply_def
  by (rule io_bind_sent) (simp_all add: recv_single_line_reply_sent io_throw_def io_return_def)

lemma recv_bulk_reply_prefix_sent: "sent (snd (recv_bulk_reply_prefix s p n) fd) = sent (n fd)"
  unfolding recv_bulk_reply_prefix_def
  by (rule io_bind_sent) (simp_all add: read_line_sent io_throw_def io_lift_def)

lemma recv_int_reply_sent: "sent (snd (recv_int_reply s n) fd) = sent (n fd)"
  unfolding recv_int_reply_def
  by (rule io_bind_sent) (simp_all add: read_line_sent io_throw_def io_lift_def)

lemma recv_int_ok_reply_sent: "sent (snd (recv_int_ok_reply s n) fd) = sent (n fd)"
  unfolding recv_int_ok_reply_def
  by (rule io_bind_sent) (simp_all add: recv_int_reply_sent io_throw_def io_return_def)

lemma bulk_data_sent:
  "sent (snd (io_bind (read_n s k) (\<lambda>data. io_lift (bulk_reply_data k data)) n) fd) = sent (n fd)"
  by (rule io_bind_sent) (simp_all add: read_n_sent io_lift_def)

lemma recv_bulk_reply_sent: "sent (snd (recv_bulk_reply s n) fd) = sent (n fd)"
  unfolding recv_bulk_reply_def
  by (rule io_bind_sent)
     (simp_all add: recv_bulk_reply_prefix_sent io_throw_def io_return_def bulk_data_sent)

lemma recv_multi_bulk_loop_sent:
  "sent (snd (snd (recv_multi_bulk_loop put s len i out n)) fd) = sent (n fd)"
proof (induction put s len i out n rule: recv_multi_bulk_loop.induct)
  case (1 put s len i out n)
  show ?case
  proof (cases "i < len")
    case False
    then show ?thesis by (subst recv_multi_bulk_loop.simps) simp
  next
    case True
    obtain r n' where r: "recv_bulk_reply s n = (r, n')" by (cases "recv_bulk_reply s n")
    then have n': "sent (n' fd) = sent (n fd)"
      using recv_bulk_reply_sent [of s n fd] by simp
    show ?thesis
    proof (cases r)
      case (Inl e)
      then show ?thesis
        using True r n' by (subst recv_multi_bulk_loop.simps) simp
    next
      case (Inr d)
      then show ?thesis
        using True r n' "1.IH" [OF True r [symmetric, unfolded Inr] refl]
        by (subst recv_multi_bulk_loop.simps) simp
    qed
  qed
qed

lemma recv_multi_bulk_reply_sent:
  "sent (snd (snd (recv_multi_bulk_reply max_size s out n)) fd) = sent (n fd)"
proof -
  obtain r n' where r: "recv_bulk_reply_prefix s REDIS_PREFIX_MULTI_BULK_REPLY n = (r, n')"
    by (cases "recv_bulk_reply_prefix s REDIS_PREFIX_MULTI_BULK_REPLY n")
  then have n': "sent (n' fd) = sent (n fd)"
    using recv_bulk_reply_prefix_sent [of s REDIS_PREFIX_MULTI_BULK_REPLY n fd] by simp
  show ?thesis
  proof (cases r)
    case (Inl e)
    then show ?thesis using r n' by (simp add: recv_multi_bulk_reply_def)
  next
    case (Inr len)
    obtain r2 o2 n2 where l: "recv_multi_bulk_loop (\<lambda>v d. v @ [d]) s len 0 out n' = (r2, o2, n2)"
      by (cases "recv_multi_bulk_loop (\<lambda>v d. v @ [d]) s len 0 out n'") auto
    then have "sent (n2 fd) = sent (n' fd)"
      using recv_multi_bulk_loop_sent [of "\<lambda>v d. v @ [d]" s len 0 out n' fd] by simp
    then show ?thesis
      using r n' Inr l by (cases r2) (simp_all add: recv_multi_bulk_reply_def)
  qed
qed

lemma recv_multi_bulk_reply_set_sent:
  "sent (snd (snd (recv_multi_bulk_reply_set s out n)) fd) = sent (n fd)"
proof -
  obtain r n' where r: "recv_bulk_reply_prefix s REDIS_PREFIX_MULTI_BULK_REPLY n = (r, n')"
    by (cases "recv_bulk_reply_prefix s REDIS_PREFIX_MULTI_BULK_REPLY n")
  then have n': "sent (n' fd) = sent (n fd)"
    using recv_bulk_reply_prefix_sent [of s REDIS_PREFIX_MULTI_BULK_REPLY n fd] by simp
  show ?thesis
  proof (cases r)
    case (Inl e)
    then show ?thesis using r n' by (simp add: recv_multi_bulk_reply_set_def)
  next
    case (Inr len)
    obtain r2 o2 n2 where l: "recv_multi_bulk_loop (\<lambda>v d. insert d v) s len 0 out n' = (r2, o2, n2)"
      by (cases "recv_multi_bulk_loop (\<lambda>v d. insert d v) s len 0 out n'") auto
    then have "sent (n2 fd) = sent (n' fd)"
      using recv_multi_bulk_loop_sent [of "\<lambda>v d. insert d v" s len 0 out n' fd] by simp
    then show ?thesis
      using r n' Inr l by (cases r2) (simp_all add: recv_multi_bulk_reply_set_def)
  qed
qed

subsection \<open>Multi-key operations\<close>

lemma send_then_sent:
  assumes "wr_err (n s) = None" and "\<And>n'. sent (snd (k n') fd) = sent (n' fd)"
  shows "sent (snd (io_bind (send s msg) (\<lambda>u. k) n) fd) =
           (if fd = s then sent (n s) @ msg else sent (n fd))"
  using assms by (simp add: io_bind_def send_ok)

lemma cross_shard_messages:
  "cross_shard (Some (runtime_error ''not possible in cluster mode''))"
  "cross_shard (Some (runtime_error ''not available in cluster mode''))"
  "cross_shard (Some (runtime_error ''feature is not available in cluster mode''))"
  "cross_shard (Some (runtime_error ''function not available in cluster mode''))"
  by (simp_all add: cluster_mode_messages_def)

lemma pair_rejects:
  assumes "get_socket c a = Inr s1" and "get_socket c b = Inr s2" and "s1 \<noteq> s2"
  shows "rename c a b n = (Inl (runtime_error ''feature is not available in cluster mode''), n)"
    and "renamenx c a b n = (Inl (runtime_error ''feature is not available in cluster mode''), n)"
    and "smove c a b member n = (Inl (runtime_error ''function not available in cluster mode''), n)"
  using assms by (auto simp: rename_def renamenx_def smove_def io_bind_def io_lift_def io_throw_def)

lemma pair_sends:
  assumes "get_socket c a = Inr s" and "get_socket c b = Inr s" and "wr_err (n s) = None"
  shows "sent (snd (rename c a b n) fd) =
           (if fd = s then sent (n s) @ to_string (rename_cmd a b) else sent (n fd))"
    and "sent (snd (renamenx c a b n) fd) =
           (if fd = s then sent (n s) @ to_string (renamenx_cmd a b) else sent (n fd))"
    and "sent (snd (smove c a b member n) fd) =
           (if fd = s then sent (n s) @ to_string (smove_cmd a b member) else sent (n fd))"
proof -
  have 1: "rename c a b n =
      io_bind (send s (to_string (rename_cmd a b))) (\<lambda>u. recv_ok_reply s) n"
    using assms(1,2) by (simp add: rename_def io_bind_def io_lift_def)
  show "sent (snd (rename c a b n) fd) =
           (if fd = s then sent (n s) @ to_string (rename_cmd a b) else sent (n fd))"
    unfolding 1 using assms(3) by (rule send_then_sent) (rule recv_ok_reply_sent)
  have 2: "renamenx c a b n =
      io_bind (send s (to_string (renamenx_cmd a b)))
        (\<lambda>u. io_bind (recv_int_reply s) (\<lambda>r. io_return (r = 1))) n"
    using assms(1,2) by (simp add: renamenx_def io_bind_def io_lift_def)
  have k: "sent (snd (io_bind (recv_int_reply s) (\<lambda>r. io_return (r = 1)) n') fd) = sent (n' fd)"
    for n'
    by (rule io_bind_sent) (simp_all add: recv_int_reply_sent io_return_def)
  show "sent (snd (renamenx c a b n) fd) =
           (if fd = s then sent (n s) @ to_string (renamenx_cmd a b) else sent (n fd))"
    unfolding 2 using assms(3) by (rule send_then_sent) (rule k)
  have 3: "smove c a b member n =
      io_bind (send s (to_string (smove_cmd a b member))) (\<lambda>u. recv_int_ok_reply s) n"
    using assms(1,2) by (simp add: smove_def io_bind_def io_lift_def)
  show "sent (snd (smove c a b member n) fd) =
           (if fd = s then sent (n s) @ to_string (smove_cmd a b member) else sent (n fd))"
    unfolding 3 using assms(3) by (rule send_then_sent) (rule recv_int_ok_reply_sent)
qed

lemma keys_rejects:
  assumes "get_socket_keys c keys = Inl e"
  shows "blpop max_size c keys timeout n = (Inl e, n)"
    and "set_command name c keys out n = (Inl e, out, n)"
  using assms by (simp_all add: blpop_def set_command_def io_bind_def io_lift_def)

lemma keys_sends:
  assumes "get_socket_keys c keys = Inr s" and "wr_err (n s) = None"
  shows "sent (snd (blpop max_size c keys timeout n) fd) =
           (if fd = s then sent (n s) @ to_string (blpop_cmd keys timeout) else sent (n fd))"
    and "sent (snd (snd (set_command name c keys out n)) fd) =
           (if fd = s then sent (n s) @ to_string (set_cmd name keys) else sent (n fd))"
proof -
  let ?n1 = "add_sent n s (to_string (blpop_cmd keys timeout))"
  obtain r sv n2 where m: "recv_multi_bulk_reply max_size s [] ?n1 = (r, sv, n2)"
    by (cases "recv_multi_bulk_reply max_size s [] ?n1") auto
  then have "sent (n2 fd) = sent (?n1 fd)"
    using recv_multi_bulk_reply_sent [of max_size s "[]" ?n1 fd] by simp
  moreover have "snd (blpop max_size c keys timeout n) = n2"
    using assms m by (cases r) (simp_all add: blpop_def io_bind_def io_lift_def io_return_def send_ok)
  ultimately show "sent (snd (blpop max_size c keys timeout n) fd) =
           (if fd = s then sent (n s) @ to_string (blpop_cmd keys timeout) else sent (n fd))"
    by simp
  let ?n1 = "add_sent n s (to_string (set_cmd name keys))"
  have "set_command name c keys out n = recv_multi_bulk_reply_set s out ?n1"
    using assms by (simp add: set_command_def io_bind_def io_lift_def io_return_def send_ok)
  then show "sent (snd (snd (set_command name c keys out n)) fd) =
           (if fd = s then sent (n s) @ to_string (set_cmd name keys) else sent (n fd))"
    using recv_multi_bulk_reply_set_sent [of s out ?n1 fd] by simp
qed

lemma store_rejects:
  assumes "\<forall>k\<in>set (dstkey # keys). \<exists>s. get_socket c k = Inr s"
    and "a \<in> set (dstkey # keys)" and "b \<in> set (dstkey # keys)"
    and "get_socket c a \<noteq> get_socket c b"
  shows "\<exists>m. m \<in> set cluster_mode_messages
           \<and> store_command name c dstkey keys n = (Inl (runtime_error m), n)"
    and "\<exists>m. m \<in> set cluster_mode_messages
           \<and> zstore_command name c dstkey keys weights ag n = (Inl (runtime_error m), n)"
proof -
  obtain sd where sd: "get_socket c dstkey = Inr sd"
    using assms(1) by auto
  have ne: "keys \<noteq> []"
    using assms(2,3,4) by (cases keys) auto
  have all: "\<forall>k\<in>set keys. \<exists>s. get_socket c k = Inr s"
    using assms(1) by simp
  have "(\<exists>m. m \<in> set cluster_mode_messages
           \<and> store_command name c dstkey keys n = (Inl (runtime_error m), n))
      \<and> (\<exists>m. m \<in> set cluster_mode_messages
           \<and> zstore_command name c dstkey keys weights ag n = (Inl (runtime_error m), n))"
    using get_socket_keys_cases [OF ne all]
  proof
    assume "\<exists>s. (\<forall>k\<in>set keys. get_socket c k = Inr s) \<and> get_socket_keys c keys = Inr s"
    then obtain s where same: "\<forall>k\<in>set keys. get_socket c k = Inr s"
      and r: "get_socket_keys c keys = Inr s"
      by blast
    have "sd \<noteq> s"
      using assms(2,3,4) same sd by auto
    then show ?thesis
      using sd r
      by (auto simp: store_command_def zstore_command_def io_bind_def io_lift_def io_throw_def
          cluster_mode_messages_def)
  next
    assume "get_socket_keys c keys = Inl (runtime_error ''not possible in cluster mode'')"
    then show ?thesis
      using sd
      by (auto simp: store_command_def zstore_command_def io_bind_def io_lift_def io_throw_def
          cluster_mode_messages_def)
  qed
  then show "\<exists>m. m \<in> set cluster_mode_messages
           \<and> store_command name c dstkey keys n = (Inl (runtime_error m), n)"
    and "\<exists>m. m \<in> set cluster_mode_messages
           \<and> zstore_command name c dstkey keys weights ag n = (Inl (runtime_error m), n)"
    by blast+
qed

lemma store_sends:
  assumes "keys \<noteq> []" and "\<forall>k\<in>set (dstkey # keys). get_socket c k = Inr s"
    and "wr_err (n s) = None"
  shows "sent (snd (store_command name c dstkey keys n) fd) =
           (if fd = s then sent (n s) @ to_string (store_cmd name dstkey keys) else sent (n fd))"
    and "weights = [] \<or> length keys = length weights \<Longrightarrow>
         sent (snd (zstore_command name c dstkey keys weights ag n) fd) =
           (if fd = s then sent (n s) @ to_string (zstore_cmd name dstkey keys weights ag)
            else sent (n fd))"
proof -
  have d: "get_socket c dstkey = Inr s" using assms(2) by simp
  have k: "get_socket_keys c keys = Inr s"
    using assms(1,2) by (intro get_socket_keys_same) auto
  have 1: "store_command name c dstkey keys n =
      io_bind (send s (to_string (store_cmd name dstkey keys))) (\<lambda>u. recv_int_reply s) n"
    using d k by (simp add: store_command_def io_bind_def io_lift_def)
  show "sent (snd (store_command name c dstkey keys n) fd) =
           (if fd = s then sent (n s) @ to_string (store_cmd name dstkey keys) else sent (n fd))"
    unfolding 1 using assms(3) by (rule send_then_sent) (rule recv_int_reply_sent)
  assume w: "weights = [] \<or> length keys = length weights"
  have 2: "zstore_command name c dstkey keys weights ag n =
      io_bind (send s (to_string (zstore_cmd name dstkey keys weights ag))) (\<lambda>u. recv_int_reply s) n"
    using d k w by (auto simp: zstore_command_def io_bind_def io_lift_def)
  show "sent (snd (zstore_command name c dstkey keys weights ag n) fd) =
           (if fd = s then sent (n s) @ to_string (zstore_cmd name dstkey keys weights ag)
            else sent (n fd))"
    unfolding 2 using assms(3) by (rule send_then_sent) (rule recv_int_reply_sent)
qed

lemma run_call_rejects:
  assumes "\<forall>k\<in>set (call_keys call). \<exists>s. get_socket c k = Inr s"
    and "a \<in> set (call_keys call)" and "b \<in> set (call_keys call)"
    and "get_socket c a \<noteq> get_socket c b"
  shows "cross_shard (fst (run_call max_size c call n)) \<and> snd (run_call max_size c call n) = n"
proof -
  have pair: "\<exists>s1 s2. get_socket c x = Inr s1 \<and> get_socket c y = Inr s2 \<and> s1 \<noteq> s2"
    if "call_keys call = [x, y]" for x y
    using assms that by (auto; metis)
  have keys: "get_socket_keys c ks = Inl (runtime_error ''not possible in cluster mode'')"
    if "call_keys call = ks" for ks
    using assms that get_socket_keys_differ [of ks c a b] by simp
  have store: "\<exists>m. m \<in> set cluster_mode_messages
           \<and> store_command name c d ks n = (Inl (runtime_error m), n)"
    if "call_keys call = d # ks" for name d ks
    using assms that store_rejects(1) [of d ks c a b name n] by simp
  have zstore: "\<exists>m. m \<in> set cluster_mode_messages
           \<and> zstore_command name c d ks w ag n = (Inl (runtime_error m), n)"
    if "call_keys call = d # ks" for name d ks w ag
    using assms that store_rejects(2) [of d ks c a b name w ag n] by simp
  show ?thesis
  proof (cases call)
    case (Rename x y)
    then show ?thesis
      using pair [of x y] pair_rejects(1) [of c x _ y _ n]
      by (auto simp: thrown_def cluster_mode_messages_def)
  next
    case (Renamenx x y)
    then show ?thesis
      using pair [of x y] pair_rejects(2) [of c x _ y _ n]
      by (auto simp: thrown_def cluster_mode_messages_def)
  next
    case (Smove x y m)
    then show ?thesis
      using pair [of x y] pair_rejects(3) [of c x _ y _ m n]
      by (auto simp: thrown_def cluster_mode_messages_def)
  next
    case (Blpop ks t)
    then show ?thesis
      using keys [of ks] keys_rejects(1) [of c ks _ max_size t n]
      by (simp add: thrown_def cluster_mode_messages_def)
  next
    case (Sinter ks out)
    then show ?thesis
      using keys [of ks] keys_rejects(2) [of c ks _ "''SINTER''" out n]
      by (simp add: thrown_def cluster_mode_messages_def sinter_def)
  next
    case (Sunion ks out)
    then show ?thesis
      using keys [of ks] keys_rejects(2) [of c ks _ "''SUNION''" out n]
      by (simp add: thrown_def cluster_mode_messages_def sunion_def)
  next
    case (Sdiff ks out)
    then show ?thesis
      using keys [of ks] keys_rejects(2) [of c ks _ "''SDIFF''" out n]
      by (simp add: thrown_def cluster_mode_messages_def sdiff_def)
  next
    case (Sinterstore d ks)
    then show ?thesis
      using store [of d ks "''SINTERSTORE''"]
      by (auto simp: thrown_def sinterstore_def)
  next
    case (Sunionstore d ks)
    then show ?thesis
      using store [of d ks "''SUNIONSTORE''"]
      by (auto simp: thrown_def sunionstore_def)
  next
    case (Sdiffstore d ks)
    then show ?thesis
      using store [of d ks "''SDIFFSTORE''"]
      by (auto simp: thrown_def sdiffstore_def)
  next
    case (Zunionstore d ks w ag)
    then show ?thesis
      using zstore [of d ks "''ZUNIONSTORE''" w ag]
      by (auto simp: thrown_def zunionstore_def)
  next
    case (Zinterstore d ks w ag)
    then show ?thesis
      using zstore [of d ks "''ZINTERSTORE''" w ag]
      by (auto simp: thrown_def zinterstore_def)
  qed
qed

lemma run_call_sends:
  assumes "call_asserts call" and "\<forall>k\<in>set (call_keys call). get_socket c k = Inr s"
    and "wr_err (n s) = None"
  shows "sent (snd (run_call max_size c call n) fd) =
           (if fd = s then sent (n s) @ to_string (call_cmd call) else sent (n fd))"
proof (cases call)
  case (Rename x y)
  then show ?thesis
    using assms pair_sends(1) [of c x s y n fd] by (simp add: split_beta)
next
  case (Renamenx x y)
  then show ?thesis
    using assms pair_sends(2) [of c x s y n fd] by (simp add: split_beta)
next
  case (Smove x y m)
  then show ?thesis
    using assms pair_sends(3) [of c x s y n m fd] by (simp add: split_beta)
next
  case (Blpop ks t)
  then have "get_socket_keys c ks = Inr s"
    using assms by (intro get_socket_keys_same) auto
  then show ?thesis
    using Blpop assms(3) keys_sends(1) [of c ks s n max_size t fd] by (simp add: split_beta)
next
  case (Sinter ks out)
  then have "get_socket_keys c ks = Inr s"
    using assms by (intro get_socket_keys_same) auto
  then show ?thesis
    using Sinter assms(3) keys_sends(2) [of c ks s n "''SINTER''" out fd]
    by (simp add: sinter_def split_beta)
next
  case (Sunion ks out)
  then have "get_socket_keys c ks = Inr s"
    using assms by (intro get_socket_keys_same) auto
  then show ?thesis
    using Sunion assms(3) keys_sends(2) [of c ks s n "''SUNION''" out fd]
    by (simp add: sunion_def split_beta)
next
  case (Sdiff ks out)
  then have "get_socket_keys c ks = Inr s"
    using assms by (intro get_socket_keys_same) auto
  then show ?thesis
    using Sdiff assms(3) keys_sends(2) [of c ks s n "''SDIFF''" out fd]
    by (simp add: sdiff_def split_beta)
next
  case (Sinterstore d ks)
  then show ?thesis
    using assms store_sends(1) [of ks d c s n "''SINTERSTORE''" fd]
    by (simp add: sinterstore_def split_beta)
next
  case (Sunionstore d ks)
  then show ?thesis
    using assms store_sends(1) [of ks d c s n "''SUNIONSTORE''" fd]
    by (simp add: sunionstore_def split_beta)
next
  case (Sdiffstore d ks)
  then show ?thesis
    using assms store_sends(1) [of ks d c s n "''SDIFFSTORE''" fd]
    by (simp add: sdiffstore_def split_beta)
next
  case (Zunionstore d ks w ag)
  then show ?thesis
    using assms store_sends(2) [of ks d c s n w "''ZUNIONSTORE''" ag fd]
    by (simp add: zunionstore_def split_beta)
next
  case (Zinterstore d ks w ag)
  then show ?thesis
    using assms store_sends(2) [of ks d c s n w "''ZINTERSTORE''" ag fd]
    by (simp add: zinterstore_def split_beta)
qed

subsection \<open>randomkey\<close>

text \<open>
  C10. \<^verbatim>\<open>randomkey\<close> draws from \<^verbatim>\<open>boost::uniform_int<>(0, connections_.size())\<close>, a closed
  range: with the two connections of the example client the draw 2 is possible, and it
  indexes \<^verbatim>\<open>connections_\<close> one past its end.
\<close>

theorem randomkey_draw_past_the_end:
  "length (connections cluster_client) = 2
   \<and> 2 \<in> randomkey_draws cluster_client
   \<and> randomkey_socket cluster_client 2 = Inl undefined_behaviour
   \<and> randomkey cluster_client 2 (quiet_net []) = (Inl undefined_behaviour, quiet_net [])"
  by (simp add: randomkey_draws_def randomkey_socket_def randomkey_def cluster_client_def
      io_bind_def io_lift_def)

lemma randomkey_draws_size:
  "int (length (connections c)) \<in> randomkey_draws c"
  by (simp add: randomkey_draws_def)

lemma randomkey_socket_size:
  "1 < length (connections c) \<Longrightarrow>
   randomkey_socket c (int (length (connections c))) = Inl undefined_behaviour"
  by (auto simp: randomkey_socket_def)

subsection \<open>mset\<close>

lemma mset_loop_rejected:
  assumes "get_socket_keys c keys = Inl e" and "i < length keys"
  shows "mset_loop c keys vals i m = Inl e"
  using assms by (subst mset_loop.simps) simp

text \<open>
  C9. \<^verbatim>\<open>mset(keys, values)\<close> as written and the corrected variant part ways as soon as two
  keys live on different connections. On the two-connection example client, with the keys
  \<open>a\<close> (second connection) and \<open>bb\<close> (first connection): as written, \<^verbatim>\<open>get_socket(keys)\<close>
  throws and nothing is sent; corrected, each connection is sent the \<^verbatim>\<open>MSET\<close> of its own
  pair.
\<close>

theorem mset_differs_from_corrected:
  "mset cluster_client [''a'', ''bb''] [''1'', ''2''] (quiet_net [''+OK'' @ [CHR 0x0D, CHR 0x0A]])
     = (Inl (runtime_error ''not possible in cluster mode''),
        quiet_net [''+OK'' @ [CHR 0x0D, CHR 0x0A]])
   \<and> fst (mset_corrected cluster_client [''a'', ''bb''] [''1'', ''2'']
            (quiet_net [''+OK'' @ [CHR 0x0D, CHR 0x0A]])) = Inr ()
   \<and> sent (snd (mset_corrected cluster_client [''a'', ''bb''] [''1'', ''2'']
                  (quiet_net [''+OK'' @ [CHR 0x0D, CHR 0x0A]])) 3)
       = to_string (shl (shl (makecmd ''MSET'') ''bb'') ''2'')
   \<and> sent (snd (mset_corrected cluster_client [''a'', ''bb''] [''1'', ''2'']
                  (quiet_net [''+OK'' @ [CHR 0x0D, CHR 0x0A]])) 4)
       = to_string (shl (shl (makecmd ''MSET'') ''a'') ''1'')"
proof -
  let ?n = "quiet_net [''+OK'' @ [CHR 0x0D, CHR 0x0A]]"
  have r: "get_socket cluster_client ''a'' = Inr 4" "get_socket cluster_client ''bb'' = Inr 3"
    by (simp_all add: get_socket_def cluster_client_def default_hasher_def Let_def mod_Suc)
  have "get_socket_keys cluster_client [''a'', ''bb''] =
      Inl (runtime_error ''not possible in cluster mode'')"
    using get_socket_keys_differ [of "[''a'', ''bb'']" cluster_client "''a''" "''bb''"] r
    by simp
  then have 1: "mset cluster_client [''a'', ''bb''] [''1'', ''2''] ?n
      = (Inl (runtime_error ''not possible in cluster mode''), ?n)"
    by (simp add: mset_def mset_loop_rejected io_bind_def io_lift_def)
  have l: "mset_corrected_loop cluster_client [''a'', ''bb''] [''1'', ''2''] 0 [] =
      Inr [(3, shl (shl (makecmd ''MSET'') ''bb'') ''2''), (4, shl (shl (makecmd ''MSET'') ''a'') ''1'')]"
    using r by (simp add: mset_corrected_loop.simps map_at_def)
  let ?n1 = "add_sent ?n 3 (to_string (shl (shl (makecmd ''MSET'') ''bb'') ''2''))"
  let ?n2 = "add_sent ?n1 4 (to_string (shl (shl (makecmd ''MSET'') ''a'') ''1''))"
  have s: "send_all [(3, shl (shl (makecmd ''MSET'') ''bb'') ''2''),
                     (4, shl (shl (makecmd ''MSET'') ''a'') ''1'')] ?n = (Inr (), ?n2)"
    by (simp add: io_bind_def send_ok io_return_def quiet_net_def)
  obtain q3 where k3: "recv_ok_reply 3 ?n2 = (Inr (), set_rcvq ?n2 3 q3)"
    using recv_ok_reply_status [where sock = 3 and n = ?n2 and st = "''OK''" and rest = "[]"]
    by (auto simp: quiet_net_def delivered_def)
  let ?n3 = "set_rcvq ?n2 3 q3"
  obtain q4 where k4: "recv_ok_reply 4 ?n3 = (Inr (), set_rcvq ?n3 4 q4)"
    using recv_ok_reply_status [where sock = 4 and n = ?n3 and st = "''OK''" and rest = "[]"]
    by (auto simp: quiet_net_def delivered_def set_rcvq_other)
  have "mset_corrected cluster_client [''a'', ''bb''] [''1'', ''2''] ?n = (Inr (), set_rcvq ?n3 4 q4)"
    using l s k3 k4 by (simp add: mset_corrected_def io_bind_def io_lift_def io_return_def)
  then have 2: "fst (mset_corrected cluster_client [''a'', ''bb''] [''1'', ''2''] ?n) = Inr ()"
    and 3: "sent (snd (mset_corrected cluster_client [''a'', ''bb''] [''1'', ''2''] ?n) 3)
       = to_string (shl (shl (makecmd ''MSET'') ''bb'') ''2'')"
    and 4: "sent (snd (mset_corrected cluster_client [''a'', ''bb''] [''1'', ''2''] ?n) 4)
       = to_string (shl (shl (makecmd ''MSET'') ''a'') ''1'')"
    by (simp_all add: quiet_net_def)
  from 1 2 3 4 show ?thesis by blast
qed

text \<open>
  Where all keys live on one connection the two agree: the defect shows only across
  connections.
\<close>

lemma mset_loops_agree:
  assumes "\<forall>k\<in>set keys. get_socket c k = Inr s"
  shows "mset_loop c keys vals i m = mset_corrected_loop c keys vals i m"
  using assms
proof (induction c keys vals i m rule: mset_loop.induct)
  case (1 c keys vals i m)
  show ?case
  proof (cases "i < length keys")
    case False
    then show ?thesis
      by (subst mset_loop.simps, subst mset_corrected_loop.simps) simp
  next
    case True
    then have ne: "keys \<noteq> []" by auto
    have k: "get_socket_keys c keys = Inr s"
      using ne "1.prems" by (rule get_socket_keys_same)
    have g: "get_socket c (keys ! i) = Inr s"
      using True "1.prems" by simp
    show ?thesis
      using True k g "1.IH" [OF True k "1.prems"]
      by (subst mset_loop.simps, subst mset_corrected_loop.simps) simp
  qed
qed

lemma mset_agrees_on_one_connection:
  assumes "\<forall>k\<in>set keys. get_socket c k = Inr s"
  shows "mset c keys vals n = mset_corrected c keys vals n"
  using mset_loops_agree [OF assms] by (simp add: mset_def mset_corrected_def)


subsection \<open>Operations that route every key on its own\<close>

lemma map_of_map_assign: "map_of (map_assign k v m) = (map_of m)(k \<mapsto> v)"
  by (induction m) auto

lemma fst_set_map_assign: "fst ` set (map_assign k v m) = insert k (fst ` set m)"
  by (simp add: dom_map_of_conv_image_fst [symmetric] map_of_map_assign)

lemma sorted_map_assign:
  "sorted_wrt (<) (map fst m) \<Longrightarrow> sorted_wrt (<) (map fst (map_assign k v m))"
proof (induction m)
  case Nil
  then show ?case by simp
next
  case (Cons p m)
  obtain k' v' where p: "p = (k', v')" by (cases p)
  have gt: "\<forall>x\<in>fst ` set m. k' < x" using Cons.prems p by auto
  show ?case
  proof (cases "k < k'")
    case True
    then show ?thesis using Cons.prems p gt by auto
  next
    case False
    show ?thesis
    proof (cases "k = k'")
      case True
      then show ?thesis using Cons.prems p by auto
    next
      case ne: False
      have "\<forall>x\<in>fst ` set (map_assign k v m). k' < x"
        using gt False ne by (auto simp: fst_set_map_assign)
      then show ?thesis
        using Cons False ne p by auto
    qed
  qed
qed

lemma per_key_loop_result:
  "\<forall>j<length keys. \<exists>s. get_socket c (keys ! j) = Inr s \<Longrightarrow> sorted_wrt (<) (map fst m0) \<Longrightarrow>
     \<exists>m. per_key_loop c keys init step i m0 = Inr m \<and> sorted_wrt (<) (map fst m)
       \<and> (\<forall>s. map_of m s =
            (if filter (\<lambda>j. get_socket c (keys ! j) = Inr s) [i..<length keys] = [] then map_of m0 s
             else Some (foldl (\<lambda>d j. step j d) (map_entry init m0 s)
                          (filter (\<lambda>j. get_socket c (keys ! j) = Inr s) [i..<length keys]))))"
proof (induction c keys init step i m0 rule: per_key_loop.induct)
  case (1 c keys init step i m0)
  show ?case
  proof (cases "i < length keys")
    case False
    then show ?thesis using "1.prems" by (subst per_key_loop.simps) simp
  next
    case True
    obtain s0 where g: "get_socket c (keys ! i) = Inr s0" using True "1.prems"(1) by blast
    let ?m1 = "map_assign s0 (step i (map_entry init m0 s0)) m0"
    have so: "sorted_wrt (<) (map fst ?m1)" using "1.prems"(2) by (rule sorted_map_assign)
    obtain m where l: "per_key_loop c keys init step (i + 1) ?m1 = Inr m"
      and sm: "sorted_wrt (<) (map fst m)"
      and mp: "\<forall>s. map_of m s =
            (if filter (\<lambda>j. get_socket c (keys ! j) = Inr s) [i + 1..<length keys] = [] then map_of ?m1 s
             else Some (foldl (\<lambda>d j. step j d) (map_entry init ?m1 s)
                          (filter (\<lambda>j. get_socket c (keys ! j) = Inr s) [i + 1..<length keys])))"
      using "1.IH" [OF True g "1.prems"(1) so] by blast
    have u: "per_key_loop c keys init step i m0 = Inr m"
      using True g l by (subst per_key_loop.simps) simp
    have "\<forall>s. map_of m s =
            (if filter (\<lambda>j. get_socket c (keys ! j) = Inr s) [i..<length keys] = [] then map_of m0 s
             else Some (foldl (\<lambda>d j. step j d) (map_entry init m0 s)
                          (filter (\<lambda>j. get_socket c (keys ! j) = Inr s) [i..<length keys])))"
      using mp g by (auto simp: upt_conv_Cons [OF True] map_of_map_assign map_entry_def)
    with u sm show ?thesis by blast
  qed
qed

lemma per_key_loop_errors:
  "per_key_loop c keys init step i m0 = Inl e \<Longrightarrow> e = undefined_behaviour"
proof (induction c keys init step i m0 rule: per_key_loop.induct)
  case (1 c keys init step i m0)
  show ?case
  proof (cases "i < length keys")
    case False
    then show ?thesis using "1.prems" by (subst (asm) per_key_loop.simps) simp
  next
    case True
    show ?thesis
    proof (cases "get_socket c (keys ! i)")
      case (Inl e')
      then have "e = e'" using True "1.prems" by (subst (asm) per_key_loop.simps) simp
      then show ?thesis
        using Inl by (auto simp: get_socket_def Let_def split: if_splits)
    next
      case (Inr s0)
      then have "per_key_loop c keys init step (i + 1)
            (map_assign s0 (step i (map_entry init m0 s0)) m0) = Inl e"
        using True "1.prems" by (subst (asm) per_key_loop.simps) simp
      then show ?thesis by (rule "1.IH" [OF True Inr])
    qed
  qed
qed

lemma filter_indices: "map (nth xs) (filter (\<lambda>j. P (xs ! j)) [0..<length xs]) = filter P xs"
proof -
  have "filter P (map (nth xs) [0..<length xs]) = map (nth xs) (filter (P \<circ> nth xs) [0..<length xs])"
    by (rule filter_map)
  then show ?thesis by (simp add: map_nth o_def)
qed

lemma filter_indices_Nil: "filter (\<lambda>j. P (xs ! j)) [0..<length xs] = [] \<longleftrightarrow> filter P xs = []"
  using filter_indices [of xs P] by (metis map_is_Nil_conv)

lemma foldl_indices:
  "foldl (\<lambda>d j. g d (xs ! j)) a (filter (\<lambda>j. P (xs ! j)) [0..<length xs]) = foldl g a (filter P xs)"
proof -
  have "foldl g a (map (nth xs) (filter (\<lambda>j. P (xs ! j)) [0..<length xs]))
      = foldl (\<lambda>d j. g d (xs ! j)) a (filter (\<lambda>j. P (xs ! j)) [0..<length xs])"
    by (simp add: foldl_map)
  then show ?thesis by (simp add: filter_indices)
qed

lemma filter_key_indices:
  "filter (\<lambda>j. get_socket c (map fst kvs ! j) = Inr s) [0..<length (map fst kvs)]
     = filter (\<lambda>j. get_socket c (fst (kvs ! j)) = Inr s) [0..<length kvs]"
  by (rule filter_cong) simp_all

lemma send_all_each: "send_all m = send_each to_string m"
  by (induction m) simp_all

lemma send_each_sent:
  assumes "\<forall>fd. wr_err (n fd) = None" and "distinct (map fst m)"
  shows "\<exists>n'. send_each wire m n = (Inr (), n')
          \<and> (\<forall>fd. sent (n' fd) = sent (n fd) @ (case map_of m fd of None \<Rightarrow> [] | Some d \<Rightarrow> wire d))"
  using assms
proof (induction m arbitrary: n)
  case Nil
  then show ?case by (simp add: io_return_def)
next
  case (Cons sp m)
  let ?n1 = "add_sent n (fst sp) (wire (snd sp))"
  have s: "send (fst sp) (wire (snd sp)) n = (Inr (), ?n1)"
    using Cons.prems(1) by (simp add: send_ok)
  have w: "\<forall>fd. wr_err (?n1 fd) = None" using Cons.prems(1) by simp
  have d: "distinct (map fst m)" and nin: "fst sp \<notin> fst ` set m" using Cons.prems(2) by auto
  obtain n' where r: "send_each wire m ?n1 = (Inr (), n')"
    and q: "\<forall>fd. sent (n' fd) = sent (?n1 fd) @ (case map_of m fd of None \<Rightarrow> [] | Some d \<Rightarrow> wire d)"
    using Cons.IH [OF w d] by blast
  have none: "map_of m (fst sp) = None" using nin by (simp add: map_of_eq_None_iff)
  have "send_each wire (sp # m) n = (Inr (), n')"
    using s r by (simp add: io_bind_def)
  moreover have "\<forall>fd. sent (n' fd) = sent (n fd)
      @ (case map_of (sp # m) fd of None \<Rightarrow> [] | Some d \<Rightarrow> wire d)"
    using q none by (cases sp) auto
  ultimately show ?case by blast
qed

lemma send_errors: "fst (send s msg n) = Inl e \<Longrightarrow> \<forall>m. e \<noteq> runtime_error m"
  by (auto simp: send_def anetWrite_def split: option.splits if_splits)

lemma send_each_errors: "fst (send_each wire m n) = Inl e \<Longrightarrow> \<forall>m. e \<noteq> runtime_error m"
proof (induction m arbitrary: n e)
  case Nil
  then show ?case by (simp add: io_return_def)
next
  case (Cons sp m)
  show ?case
    using Cons.prems unfolding send_each.simps
    by (rule io_bind_errors [where P = "\<lambda>e. \<forall>m. e \<noteq> runtime_error m"])
       (auto dest: send_errors Cons.IH)
qed

lemma recv_ok_all_sent: "sent (snd (recv_ok_all m n) fd) = sent (n fd)"
proof (induction m arbitrary: n)
  case Nil
  then show ?case by (simp add: io_return_def)
next
  case (Cons sp m)
  show ?case
    unfolding recv_ok_all.simps
    by (rule io_bind_sent) (simp_all add: recv_ok_reply_sent Cons.IH)
qed

lemma recv_ok_all_errors: "fst (recv_ok_all m n) = Inl e \<Longrightarrow> \<forall>m. e \<noteq> runtime_error m"
proof (induction m arbitrary: n e)
  case Nil
  then show ?case by (simp add: io_return_def)
next
  case (Cons sp m)
  show ?case
    using Cons.prems unfolding recv_ok_all.simps
    by (rule io_bind_errors [where P = "\<lambda>e. \<forall>m. e \<noteq> runtime_error m"])
       (auto dest: recv_ok_reply_errors Cons.IH)
qed

lemma recv_int_ok_times_sent: "sent (snd (recv_int_ok_times s k n) fd) = sent (n fd)"
proof (induction k arbitrary: n)
  case 0
  then show ?case by (simp add: io_return_def)
next
  case (Suc k)
  show ?case
    unfolding recv_int_ok_times.simps
    by (rule io_bind_sent) (simp_all add: recv_int_ok_reply_sent Suc.IH)
qed

lemma recv_int_ok_times_errors:
  "fst (recv_int_ok_times s k n) = Inl e \<Longrightarrow> \<forall>m. e \<noteq> runtime_error m"
proof (induction k arbitrary: n e)
  case 0
  then show ?case by (simp add: io_return_def)
next
  case (Suc k)
  show ?case
    using Suc.prems unfolding recv_int_ok_times.simps
    by (rule io_bind_errors [where P = "\<lambda>e. \<forall>m. e \<noteq> runtime_error m"])
       (auto dest: recv_int_ok_reply_errors decoder_error_not_runtime Suc.IH)
qed

lemma msetex_recv_all_sent: "sent (snd (msetex_recv_all m n) fd) = sent (n fd)"
proof (induction m arbitrary: n)
  case Nil
  then show ?case by (simp add: io_return_def)
next
  case (Cons sp m)
  have inner: "\<And>n. sent (snd (io_bind (recv_int_ok_times (fst sp) (count (snd sp)))
                  (\<lambda>u. msetex_recv_all m) n) fd) = sent (n fd)"
    by (rule io_bind_sent) (simp_all add: recv_int_ok_times_sent Cons.IH)
  show ?case
    unfolding msetex_recv_all.simps
    by (rule io_bind_sent) (simp_all add: recv_ok_reply_sent inner)
qed

lemma msetex_recv_all_errors:
  "fst (msetex_recv_all m n) = Inl e \<Longrightarrow> \<forall>m. e \<noteq> runtime_error m"
proof (induction m arbitrary: n e)
  case Nil
  then show ?case by (simp add: io_return_def)
next
  case (Cons sp m)
  have inner: "\<And>n e. fst (io_bind (recv_int_ok_times (fst sp) (count (snd sp)))
                  (\<lambda>u. msetex_recv_all m) n) = Inl e \<Longrightarrow> \<forall>m. e \<noteq> runtime_error m"
    by (erule io_bind_errors [where P = "\<lambda>e. \<forall>m. e \<noteq> runtime_error m"])
       (auto dest: recv_int_ok_times_errors Cons.IH)
  show ?case
    using Cons.prems unfolding msetex_recv_all.simps
    by (rule io_bind_errors [where P = "\<lambda>e. \<forall>m. e \<noteq> runtime_error m"])
       (auto dest: recv_ok_reply_errors inner)
qed

lemma mget_assign_errors:
  "mget_assign positions cur_out i out = Inl e \<Longrightarrow> e = undefined_behaviour"
proof (induction positions cur_out i out rule: mget_assign.induct)
  case (1 positions cur_out i out)
  show ?case
  proof (cases "i < length cur_out")
    case False
    then show ?thesis using "1.prems" by (subst (asm) mget_assign.simps) simp
  next
    case True
    show ?thesis
    proof (cases "length positions \<le> i \<or> length out \<le> positions ! i")
      case u: True
      then show ?thesis using True "1.prems" by (subst (asm) mget_assign.simps) auto
    next
      case f: False
      then have "mget_assign positions cur_out (i + 1) (out[positions ! i := cur_out ! i]) = Inl e"
        using True "1.prems" by (subst (asm) mget_assign.simps) auto
      then show ?thesis by (rule "1.IH" [OF True f])
    qed
  qed
qed

lemma mget_recv_all_sent:
  "sent (snd (snd (mget_recv_all max_size m out n)) fd) = sent (n fd)"
proof (induction m arbitrary: out n)
  case Nil
  then show ?case by simp
next
  case (Cons sp m)
  obtain r cur_out n' where r: "recv_multi_bulk_reply max_size (fst sp) [] n = (r, cur_out, n')"
    by (cases "recv_multi_bulk_reply max_size (fst sp) [] n")
  have s: "sent (n' fd) = sent (n fd)"
    using recv_multi_bulk_reply_sent [of max_size "fst sp" "[]" n fd] r by simp
  show ?case
    using r s Cons.IH by (auto split: sum.splits)
qed

lemma mget_recv_all_errors:
  "fst (mget_recv_all max_size m out n) = Inl e \<Longrightarrow> \<forall>m. e \<noteq> runtime_error m"
proof (induction m arbitrary: out n e)
  case Nil
  then show ?case by simp
next
  case (Cons sp m)
  obtain r cur_out n' where r: "recv_multi_bulk_reply max_size (fst sp) [] n = (r, cur_out, n')"
    by (cases "recv_multi_bulk_reply max_size (fst sp) [] n")
  show ?case
  proof (cases r)
    case (Inl e')
    then have "e = e'" using Cons.prems r by simp
    then show ?thesis
      using recv_multi_bulk_reply_errors [of max_size "fst sp" "[]" n e'] r Inl
      by (auto dest: decoder_error_not_runtime)
  next
    case (Inr len)
    show ?thesis
    proof (cases "mget_assign (indices (snd sp)) cur_out 0 out")
      case (Inl e')
      then have "e = e'" using Cons.prems r Inr by simp
      then show ?thesis using mget_assign_errors [OF Inl] by simp
    next
      case (Inr out')
      then have "fst (mget_recv_all max_size m out' n') = Inl e"
        using Cons.prems r \<open>r = Inr len\<close> by simp
      then show ?thesis by (rule Cons.IH)
    qed
  qed
qed

lemma msetex_fold:
  "mset_cmd (foldl (\<lambda>d j. \<lparr>mset_cmd = g (mset_cmd d) (kvs ! j),
                             expire_cmds = expire_cmds d @ E (kvs ! j),
                             count = count d + 1\<rparr>) dat js)
     = foldl (\<lambda>m j. g m (kvs ! j)) (mset_cmd dat) js"
  "expire_cmds (foldl (\<lambda>d j. \<lparr>mset_cmd = g (mset_cmd d) (kvs ! j),
                                expire_cmds = expire_cmds d @ E (kvs ! j),
                                count = count d + 1\<rparr>) dat js)
     = expire_cmds dat @ concat (map (\<lambda>j. E (kvs ! j)) js)"
  by (induction js arbitrary: dat) simp_all

lemma mget_fold:
  "cmd (foldl (\<lambda>d j. \<lparr>cmd = shl (cmd d) (keys ! j), indices = indices d @ [j]\<rparr>) dat js)
     = foldl (\<lambda>m j. shl m (keys ! j)) (cmd dat) js"
  by (induction js arbitrary: dat) simp_all

lemma concat_indices:
  "concat (map (\<lambda>j. E (xs ! j)) (filter (\<lambda>j. P (xs ! j)) [0..<length xs])) = concat (map E (filter P xs))"
proof -
  have "map E (map (nth xs) (filter (\<lambda>j. P (xs ! j)) [0..<length xs]))
      = map (\<lambda>j. E (xs ! j)) (filter (\<lambda>j. P (xs ! j)) [0..<length xs])"
    by simp
  then show ?thesis by (simp only: filter_indices)
qed

lemma keys_resolve_nth:
  "\<forall>k\<in>set keys. \<exists>s. get_socket c k = Inr s \<Longrightarrow> \<forall>j<length keys. \<exists>s. get_socket c (keys ! j) = Inr s"
  by simp

lemma mset_pairs_sends:
  assumes "\<forall>k\<in>set (map fst kvs). \<exists>s. get_socket c k = Inr s" and "\<forall>fd. wr_err (n fd) = None"
  shows "sent (snd (mset_pairs c kvs n) fd) = sent (n fd) @ per_key_wire c (Mset_pairs kvs) fd"
proof -
  let ?keys = "map fst kvs"
  let ?step = "\<lambda>i m. shl (shl m (fst (kvs ! i))) (snd (kvs ! i))"
  let ?js = "filter (\<lambda>j. get_socket c (fst (kvs ! j)) = Inr fd) [0..<length kvs]"
  have res: "\<forall>j<length ?keys. \<exists>s. get_socket c (?keys ! j) = Inr s"
    using assms(1) by (rule keys_resolve_nth)
  obtain m where l: "per_key_loop c ?keys (makecmd ''MSET'') ?step 0 [] = Inr m"
    and sm: "sorted_wrt (<) (map fst m)"
    and mp: "\<forall>s. map_of m s =
            (if filter (\<lambda>j. get_socket c (?keys ! j) = Inr s) [0..<length ?keys] = [] then map_of [] s
             else Some (foldl (\<lambda>d j. ?step j d) (map_entry (makecmd ''MSET'') [] s)
                          (filter (\<lambda>j. get_socket c (?keys ! j) = Inr s) [0..<length ?keys])))"
    using per_key_loop_result [OF res, of "[]" "makecmd ''MSET''" ?step 0] by auto
  have mfd: "map_of m fd = (if ?js = [] then None
      else Some (foldl (\<lambda>d j. ?step j d) (makecmd ''MSET'') ?js))"
    using mp [rule_format, of fd] unfolding filter_key_indices by (simp add: map_entry_def)
  have nil: "(?js = []) = (routed_to c fd kvs = [])"
    using filter_indices_Nil [of "\<lambda>kv. get_socket c (fst kv) = Inr fd" kvs]
    by (simp add: routed_to_def)
  have fo: "foldl (\<lambda>d j. ?step j d) (makecmd ''MSET'') ?js
      = foldl (\<lambda>m kv. shl (shl m (fst kv)) (snd kv)) (makecmd ''MSET'') (routed_to c fd kvs)"
    using foldl_indices [of "\<lambda>m kv. shl (shl m (fst kv)) (snd kv)" kvs "makecmd ''MSET''"
        "\<lambda>kv. get_socket c (fst kv) = Inr fd"]
    by (simp add: routed_to_def)
  have w: "(case map_of m fd of None \<Rightarrow> [] | Some d \<Rightarrow> to_string d) = per_key_wire c (Mset_pairs kvs) fd"
    by (simp add: mfd nil fo)
  have d: "distinct (map fst m)" using sm strict_sorted_iff by blast
  obtain n1 where s1: "send_each to_string m n = (Inr (), n1)"
    and q: "\<forall>fd. sent (n1 fd) = sent (n fd) @ (case map_of m fd of None \<Rightarrow> [] | Some d \<Rightarrow> to_string d)"
    using send_each_sent [OF assms(2) d] by blast
  have e: "mset_pairs c kvs n = recv_ok_all m n1"
    using l s1 by (simp add: mset_pairs_def io_bind_def io_lift_def send_all_each)
  show ?thesis
    using q w by (simp add: e recv_ok_all_sent)
qed

lemma msetex_sends:
  assumes "\<forall>k\<in>set (map fst kvs). \<exists>s. get_socket c k = Inr s" and "\<forall>fd. wr_err (n fd) = None"
  shows "sent (snd (msetex c kvs seconds n) fd) = sent (n fd) @ per_key_wire c (Msetex kvs seconds) fd"
proof -
  let ?keys = "map fst kvs"
  let ?init = "\<lparr>mset_cmd = makecmd ''MSET'', expire_cmds = [], count = 0\<rparr>"
  let ?E = "\<lambda>kv. to_string (shl_int (shl (makecmd ''EXPIRE'') (fst kv)) seconds)"
  let ?g = "\<lambda>m kv. shl (shl m (fst kv)) (snd kv)"
  let ?step = "\<lambda>i dat. \<lparr>mset_cmd = ?g (mset_cmd dat) (kvs ! i),
                    expire_cmds = expire_cmds dat @ ?E (kvs ! i),
                    count = count dat + 1\<rparr>"
  let ?wire = "\<lambda>dat. to_string (mset_cmd dat) @ expire_cmds dat"
  let ?js = "filter (\<lambda>j. get_socket c (fst (kvs ! j)) = Inr fd) [0..<length kvs]"
  have res: "\<forall>j<length ?keys. \<exists>s. get_socket c (?keys ! j) = Inr s"
    using assms(1) by (rule keys_resolve_nth)
  obtain m where l: "per_key_loop c ?keys ?init ?step 0 [] = Inr m"
    and sm: "sorted_wrt (<) (map fst m)"
    and mp: "\<forall>s. map_of m s =
            (if filter (\<lambda>j. get_socket c (?keys ! j) = Inr s) [0..<length ?keys] = [] then map_of [] s
             else Some (foldl (\<lambda>d j. ?step j d) (map_entry ?init [] s)
                          (filter (\<lambda>j. get_socket c (?keys ! j) = Inr s) [0..<length ?keys])))"
    using per_key_loop_result [OF res, of "[]" ?init ?step 0] by auto
  have mfd: "map_of m fd = (if ?js = [] then None
      else Some (foldl (\<lambda>d j. ?step j d) ?init ?js))"
    using mp [rule_format, of fd] unfolding filter_key_indices by (simp add: map_entry_def)
  have nil: "(?js = []) = (routed_to c fd kvs = [])"
    using filter_indices_Nil [of "\<lambda>kv. get_socket c (fst kv) = Inr fd" kvs]
    by (simp add: routed_to_def)
  have fo: "mset_cmd (foldl (\<lambda>d j. ?step j d) ?init ?js)
      = foldl ?g (makecmd ''MSET'') (routed_to c fd kvs)"
  proof -
    have "mset_cmd (foldl (\<lambda>d j. ?step j d) ?init ?js)
        = foldl (\<lambda>m j. ?g m (kvs ! j)) (mset_cmd ?init) ?js"
      by (rule msetex_fold(1) [of ?g kvs ?E])
    also have "\<dots> = foldl ?g (makecmd ''MSET'') (routed_to c fd kvs)"
      using foldl_indices [of ?g kvs "makecmd ''MSET''" "\<lambda>kv. get_socket c (fst kv) = Inr fd"]
      by (simp add: routed_to_def)
    finally show ?thesis .
  qed
  have ex: "expire_cmds (foldl (\<lambda>d j. ?step j d) ?init ?js)
      = concat (map ?E (routed_to c fd kvs))"
  proof -
    have "expire_cmds (foldl (\<lambda>d j. ?step j d) ?init ?js)
        = expire_cmds ?init @ concat (map (\<lambda>j. ?E (kvs ! j)) ?js)"
      by (rule msetex_fold(2) [of ?g kvs ?E])
    also have "\<dots> = concat (map ?E (routed_to c fd kvs))"
      using concat_indices [of ?E kvs "\<lambda>kv. get_socket c (fst kv) = Inr fd"]
      by (simp add: routed_to_def)
    finally show ?thesis .
  qed
  have w: "(case map_of m fd of None \<Rightarrow> [] | Some d \<Rightarrow> ?wire d) = per_key_wire c (Msetex kvs seconds) fd"
    using fo ex by (simp add: mfd nil)
  have d: "distinct (map fst m)" using sm strict_sorted_iff by blast
  obtain n1 where s1: "send_each ?wire m n = (Inr (), n1)"
    and q: "\<forall>fd. sent (n1 fd) = sent (n fd) @ (case map_of m fd of None \<Rightarrow> [] | Some d \<Rightarrow> ?wire d)"
    using send_each_sent [OF assms(2) d] by blast
  have e: "msetex c kvs seconds n = msetex_recv_all m n1"
    using l s1 by (simp add: msetex_def io_bind_def io_lift_def)
  show ?thesis
    using q w by (simp add: e msetex_recv_all_sent)
qed

lemma mget_sends:
  assumes "\<forall>k\<in>set keys. \<exists>s. get_socket c k = Inr s" and "\<forall>fd. wr_err (n fd) = None"
  shows "sent (snd (snd (mget max_size c keys n)) fd) = sent (n fd) @ per_key_wire c (Mget keys) fd"
proof -
  let ?init = "\<lparr>cmd = makecmd ''MGET'', indices = []\<rparr>"
  let ?step = "\<lambda>i con_keys. \<lparr>cmd = shl (cmd con_keys) (keys ! i), indices = indices con_keys @ [i]\<rparr>"
  let ?wire = "\<lambda>con_keys. to_string (cmd con_keys)"
  let ?js = "filter (\<lambda>j. get_socket c (keys ! j) = Inr fd) [0..<length keys]"
  have res: "\<forall>j<length keys. \<exists>s. get_socket c (keys ! j) = Inr s"
    using assms(1) by (rule keys_resolve_nth)
  obtain m where l: "per_key_loop c keys ?init ?step 0 [] = Inr m"
    and sm: "sorted_wrt (<) (map fst m)"
    and mp: "\<forall>s. map_of m s =
            (if filter (\<lambda>j. get_socket c (keys ! j) = Inr s) [0..<length keys] = [] then map_of [] s
             else Some (foldl (\<lambda>d j. ?step j d) (map_entry ?init [] s)
                          (filter (\<lambda>j. get_socket c (keys ! j) = Inr s) [0..<length keys])))"
    using per_key_loop_result [OF res, of "[]" ?init ?step 0] by auto
  have mfd: "map_of m fd = (if ?js = [] then None
      else Some (foldl (\<lambda>d j. ?step j d) ?init ?js))"
    using mp [rule_format, of fd] by (simp add: map_entry_def)
  have nil: "(?js = []) = (filter (\<lambda>k. get_socket c k = Inr fd) keys = [])"
    using filter_indices_Nil [of "\<lambda>k. get_socket c k = Inr fd" keys] by simp
  have fo: "cmd (foldl (\<lambda>d j. ?step j d) ?init ?js)
      = foldl shl (makecmd ''MGET'') (filter (\<lambda>k. get_socket c k = Inr fd) keys)"
    using foldl_indices [of shl keys "makecmd ''MGET''" "\<lambda>k. get_socket c k = Inr fd"]
    by (simp add: mget_fold)
  have w: "(case map_of m fd of None \<Rightarrow> [] | Some d \<Rightarrow> ?wire d) = per_key_wire c (Mget keys) fd"
    by (simp add: mfd nil fo)
  have d: "distinct (map fst m)" using sm strict_sorted_iff by blast
  obtain n1 where s1: "send_each ?wire m n = (Inr (), n1)"
    and q: "\<forall>fd. sent (n1 fd) = sent (n fd) @ (case map_of m fd of None \<Rightarrow> [] | Some d \<Rightarrow> ?wire d)"
    using send_each_sent [OF assms(2) d] by blast
  have e: "mget max_size c keys n = mget_recv_all max_size m (replicate (length keys) []) n1"
    using l s1 by (simp add: mget_def)
  show ?thesis
    using q w by (simp add: e mget_recv_all_sent)
qed

lemma run_per_key_sends:
  assumes "\<forall>k\<in>set (per_key_keys call). \<exists>s. get_socket c k = Inr s"
    and "\<forall>fd. wr_err (n fd) = None"
  shows "sent (snd (run_per_key max_size c call n) fd) = sent (n fd) @ per_key_wire c call fd"
proof (cases call)
  case (Mset_pairs kvs)
  then show ?thesis
    using mset_pairs_sends [of kvs c n fd] assms by (simp add: split_beta)
next
  case (Msetex kvs seconds)
  then show ?thesis
    using msetex_sends [of kvs c n seconds fd] assms by (simp add: split_beta)
next
  case (Mget keys)
  then show ?thesis
    using mget_sends [of keys c n max_size fd] assms by (simp add: split_beta)
qed

lemma io_lift_errors: "fst (io_lift r n) = Inl e \<Longrightarrow> r = Inl e"
  by (cases r) (simp_all add: io_lift_def)

lemma mset_pairs_errors:
  "fst (mset_pairs c kvs n) = Inl e \<Longrightarrow> \<forall>m. e \<noteq> runtime_error m"
proof -
  assume a: "fst (mset_pairs c kvs n) = Inl e"
  have inner: "\<And>sc n e. fst (io_bind (send_all sc) (\<lambda>u. recv_ok_all sc) n) = Inl e
      \<Longrightarrow> \<forall>m. e \<noteq> runtime_error m"
    by (erule io_bind_errors [where P = "\<lambda>e. \<forall>m. e \<noteq> runtime_error m"])
       (auto simp: send_all_each dest: send_each_errors recv_ok_all_errors)
  show ?thesis
    using a unfolding mset_pairs_def
    by (rule io_bind_errors [where P = "\<lambda>e. \<forall>m. e \<noteq> runtime_error m"])
       (auto dest: inner io_lift_errors per_key_loop_errors)
qed

lemma msetex_errors:
  "fst (msetex c kvs seconds n) = Inl e \<Longrightarrow> \<forall>m. e \<noteq> runtime_error m"
proof -
  assume a: "fst (msetex c kvs seconds n) = Inl e"
  have inner: "\<And>sc n e. fst (io_bind (send_each (\<lambda>dat. to_string (mset_cmd dat) @ expire_cmds dat) sc)
                  (\<lambda>u. msetex_recv_all sc) n) = Inl e
      \<Longrightarrow> \<forall>m. e \<noteq> runtime_error m"
    by (erule io_bind_errors [where P = "\<lambda>e. \<forall>m. e \<noteq> runtime_error m"])
       (auto dest: send_each_errors msetex_recv_all_errors)
  show ?thesis
    using a unfolding msetex_def
    by (rule io_bind_errors [where P = "\<lambda>e. \<forall>m. e \<noteq> runtime_error m"])
       (auto dest: inner io_lift_errors per_key_loop_errors)
qed

lemma mget_errors:
  assumes "fst (mget max_size c keys n) = Inl e"
  shows "\<forall>m. e \<noteq> runtime_error m"
proof (cases "per_key_loop c keys \<lparr>cmd = makecmd ''MGET'', indices = []\<rparr>
             (\<lambda>i con_keys. \<lparr>cmd = shl (cmd con_keys) (keys ! i), indices = indices con_keys @ [i]\<rparr>)
             0 []")
  case (Inl e')
  then have "e = e'" using assms by (simp add: mget_def)
  then show ?thesis using per_key_loop_errors [OF Inl] by simp
next
  case (Inr sc)
  obtain r n1 where s: "send_each (\<lambda>con_keys. to_string (cmd con_keys)) sc n = (r, n1)"
    by (cases "send_each (\<lambda>con_keys. to_string (cmd con_keys)) sc n")
  show ?thesis
  proof (cases r)
    case (Inl e')
    then have "e = e'" using assms Inr s by (simp add: mget_def)
    then show ?thesis
      using send_each_errors [of "\<lambda>con_keys. to_string (cmd con_keys)" sc n e'] s Inl by simp
  next
    case r: (Inr u)
    then have "fst (mget_recv_all max_size sc (replicate (length keys) []) n1) = Inl e"
      using assms Inr s by (simp add: mget_def)
    then show ?thesis by (rule mget_recv_all_errors)
  qed
qed

lemma not_cross_shard:
  "(\<And>e. r = Inl e \<Longrightarrow> \<forall>m. e \<noteq> runtime_error m) \<Longrightarrow> \<not> cross_shard (thrown r)"
proof (cases r)
  case (Inl e)
  assume "\<And>e. r = Inl e \<Longrightarrow> \<forall>m. e \<noteq> runtime_error m"
  then have "\<forall>m. e \<noteq> runtime_error m" using Inl by simp
  then show ?thesis using Inl by (cases e) (simp_all add: thrown_def)
next
  case (Inr v)
  then show ?thesis by (simp add: thrown_def)
qed

lemma run_per_key_not_rejected: "\<not> cross_shard (fst (run_per_key max_size c call n))"
proof (cases call)
  case (Mset_pairs kvs)
  have "\<not> cross_shard (thrown (fst (mset_pairs c kvs n)))"
    by (rule not_cross_shard) (rule mset_pairs_errors)
  then show ?thesis using Mset_pairs by (simp add: split_beta)
next
  case (Msetex kvs seconds)
  have "\<not> cross_shard (thrown (fst (msetex c kvs seconds n)))"
    by (rule not_cross_shard) (rule msetex_errors)
  then show ?thesis using Msetex by (simp add: split_beta)
next
  case (Mget keys)
  have "\<not> cross_shard (thrown (fst (mget max_size c keys n)))"
    by (rule not_cross_shard) (rule mget_errors)
  then show ?thesis using Mget by (simp add: split_beta)
qed

subsection \<open>mset and msetnx on a key vector\<close>

lemma msetnx_loop_rejected:
  assumes "get_socket_keys c keys = Inl e" and "i < length keys"
  shows "msetnx_loop c keys vals i m = Inl e"
  using assms by (subst msetnx_loop.simps) simp

lemma mset_loop_one_socket:
  assumes "get_socket_keys c keys = Inr s"
  shows "0 < i \<Longrightarrow> i \<le> length keys \<Longrightarrow>
     mset_loop c keys vals i
        [(s, foldl (\<lambda>m j. shl (shl m (keys ! j)) (vals ! j)) (makecmd ''MSET'') [0..<i])]
     = Inr [(s, foldl (\<lambda>m j. shl (shl m (keys ! j)) (vals ! j)) (makecmd ''MSET'') [0..<length keys])]"
proof (induction "length keys - i" arbitrary: i)
  case 0
  then have "i = length keys" by simp
  then show ?case by (subst mset_loop.simps) simp
next
  case (Suc d)
  then have lt: "i < length keys" by simp
  have "mset_loop c keys vals (i + 1)
        [(s, foldl (\<lambda>m j. shl (shl m (keys ! j)) (vals ! j)) (makecmd ''MSET'') [0..<i + 1])]
     = Inr [(s, foldl (\<lambda>m j. shl (shl m (keys ! j)) (vals ! j)) (makecmd ''MSET'') [0..<length keys])]"
    using Suc.hyps(2) lt by (intro Suc.hyps(1)) simp_all
  then show ?case
    using lt assms by (subst mset_loop.simps) (simp add: map_at_def)
qed

lemma mset_loop_same:
  assumes "get_socket_keys c keys = Inr s" and "keys \<noteq> []"
  shows "mset_loop c keys vals 0 [] =
     Inr [(s, foldl (\<lambda>m j. shl (shl m (keys ! j)) (vals ! j)) (makecmd ''MSET'') [0..<length keys])]"
proof -
  have lt: "0 < length keys" using assms(2) by simp
  have "mset_loop c keys vals 0 [] = mset_loop c keys vals 1
        [(s, foldl (\<lambda>m j. shl (shl m (keys ! j)) (vals ! j)) (makecmd ''MSET'') [0..<1])]"
    using lt assms(1) by (subst mset_loop.simps) (simp add: map_at_def)
  also have "\<dots> = Inr [(s, foldl (\<lambda>m j. shl (shl m (keys ! j)) (vals ! j)) (makecmd ''MSET'')
        [0..<length keys])]"
    using lt by (intro mset_loop_one_socket [OF assms(1)]) (simp_all add: Suc_le_eq)
  finally show ?thesis .
qed

lemma msetnx_loop_one_socket:
  assumes "get_socket_keys c keys = Inr s"
  shows "0 < i \<Longrightarrow> i \<le> length keys \<Longrightarrow>
     msetnx_loop c keys vals i
        [(s, foldl (\<lambda>m j. shl (shl m (keys ! j)) (vals ! j)) (makecmd ''MSETNX'') [0..<i])]
     = Inr [(s, foldl (\<lambda>m j. shl (shl m (keys ! j)) (vals ! j)) (makecmd ''MSETNX'') [0..<length keys])]"
proof (induction "length keys - i" arbitrary: i)
  case 0
  then have "i = length keys" by simp
  then show ?case by (subst msetnx_loop.simps) simp
next
  case (Suc d)
  then have lt: "i < length keys" by simp
  have "msetnx_loop c keys vals (i + 1)
        [(s, foldl (\<lambda>m j. shl (shl m (keys ! j)) (vals ! j)) (makecmd ''MSETNX'') [0..<i + 1])]
     = Inr [(s, foldl (\<lambda>m j. shl (shl m (keys ! j)) (vals ! j)) (makecmd ''MSETNX'') [0..<length keys])]"
    using Suc.hyps(2) lt by (intro Suc.hyps(1)) simp_all
  then show ?case
    using lt assms by (subst msetnx_loop.simps) (simp add: map_at_def)
qed

lemma msetnx_loop_same:
  assumes "get_socket_keys c keys = Inr s" and "keys \<noteq> []"
  shows "msetnx_loop c keys vals 0 [] =
     Inr [(s, foldl (\<lambda>m j. shl (shl m (keys ! j)) (vals ! j)) (makecmd ''MSETNX'') [0..<length keys])]"
proof -
  have lt: "0 < length keys" using assms(2) by simp
  have "msetnx_loop c keys vals 0 [] = msetnx_loop c keys vals 1
        [(s, foldl (\<lambda>m j. shl (shl m (keys ! j)) (vals ! j)) (makecmd ''MSETNX'') [0..<1])]"
    using lt assms(1) by (subst msetnx_loop.simps) (simp add: map_at_def)
  also have "\<dots> = Inr [(s, foldl (\<lambda>m j. shl (shl m (keys ! j)) (vals ! j)) (makecmd ''MSETNX'')
        [0..<length keys])]"
    using lt by (intro msetnx_loop_one_socket [OF assms(1)]) (simp_all add: Suc_le_eq)
  finally show ?thesis .
qed

lemma foldl_zip_indices:
  assumes "length keys = length vals"
  shows "foldl (\<lambda>m j. g m (keys ! j, vals ! j)) a [0..<length keys] = foldl g a (zip keys vals)"
proof -
  have "foldl g a (map (nth (zip keys vals)) [0..<length (zip keys vals)])
      = foldl (\<lambda>m j. g m (zip keys vals ! j)) a [0..<length (zip keys vals)]"
    by (simp add: foldl_map)
  moreover have "foldl (\<lambda>m j. g m (zip keys vals ! j)) a [0..<length (zip keys vals)]
      = foldl (\<lambda>m j. g m (keys ! j, vals ! j)) a [0..<length keys]"
    using assms by (intro foldl_cong) simp_all
  ultimately show ?thesis by (simp only: map_nth)
qed

lemma run_key_value_rejects:
  assumes "\<forall>k\<in>set (key_value_keys call). \<exists>s. get_socket c k = Inr s"
    and "length (key_value_keys call) = length (key_value_vals call)"
    and "a \<in> set (key_value_keys call)" and "b \<in> set (key_value_keys call)"
    and "get_socket c a \<noteq> get_socket c b"
  shows "cross_shard (fst (run_key_value c call n))" and "snd (run_key_value c call n) = n"
proof -
  have k: "get_socket_keys c (key_value_keys call) = Inl (runtime_error ''not possible in cluster mode'')"
    using assms(1,3,4,5) by (rule get_socket_keys_differ)
  have lt: "0 < length (key_value_keys call)" using assms(3) by (auto simp: length_greater_0_conv)
  have "run_key_value c call n = (Some (runtime_error ''not possible in cluster mode''), n)"
  proof (cases call)
    case (Mset keys vals)
    have "mset_loop c keys vals 0 [] = Inl (runtime_error ''not possible in cluster mode'')"
      using k lt Mset by (intro mset_loop_rejected) simp_all
    then show ?thesis
      using Mset assms(2) by (simp add: mset_def io_bind_def io_lift_def thrown_def)
  next
    case (Msetnx keys vals)
    have "msetnx_loop c keys vals 0 [] = Inl (runtime_error ''not possible in cluster mode'')"
      using k lt Msetnx by (intro msetnx_loop_rejected) simp_all
    then show ?thesis
      using Msetnx assms(2) by (simp add: msetnx_def io_bind_def io_lift_def thrown_def)
  qed
  then show "cross_shard (fst (run_key_value c call n))" and "snd (run_key_value c call n) = n"
    by (simp_all add: cluster_mode_messages_def)
qed

lemma run_key_value_sends:
  assumes "\<forall>k\<in>set (key_value_keys call). get_socket c k = Inr s"
    and "length (key_value_keys call) = length (key_value_vals call)"
    and "key_value_keys call \<noteq> []" and "wr_err (n s) = None"
  shows "sent (snd (run_key_value c call n) fd) =
           (if fd = s then sent (n s) @ to_string (key_value_cmd call) else sent (n fd))"
proof -
  have k: "get_socket_keys c (key_value_keys call) = Inr s"
    using assms(3,1) by (rule get_socket_keys_same)
  show ?thesis
  proof (cases call)
    case (Mset keys vals)
    let ?cmd = "foldl (\<lambda>m j. shl (shl m (keys ! j)) (vals ! j)) (makecmd ''MSET'') [0..<length keys]"
    have c: "?cmd = key_value_cmd call"
      using foldl_zip_indices [of keys vals "\<lambda>m kv. shl (shl m (fst kv)) (snd kv)" "makecmd ''MSET''"]
        assms(2) Mset by simp
    have l: "mset_loop c keys vals 0 [] = Inr [(s, ?cmd)]"
      using mset_loop_same [of c keys s vals] k assms(3) Mset by simp
    have "mset c keys vals n = recv_ok_reply s (add_sent n s (to_string ?cmd))"
      using l assms(2,4) Mset
      by (simp add: mset_def io_bind_def io_lift_def send_ok io_return_def split: prod.splits sum.splits)
    then have "sent (snd (mset c keys vals n) fd) = sent (add_sent n s (to_string ?cmd) fd)"
      by (simp add: recv_ok_reply_sent)
    then show ?thesis using Mset c by (simp add: split_beta)
  next
    case (Msetnx keys vals)
    let ?cmd = "foldl (\<lambda>m j. shl (shl m (keys ! j)) (vals ! j)) (makecmd ''MSETNX'') [0..<length keys]"
    have c: "?cmd = key_value_cmd call"
      using foldl_zip_indices [of keys vals "\<lambda>m kv. shl (shl m (fst kv)) (snd kv)" "makecmd ''MSETNX''"]
        assms(2) Msetnx by simp
    have l: "msetnx_loop c keys vals 0 [] = Inr [(s, ?cmd)]"
      using msetnx_loop_same [of c keys s vals] k assms(3) Msetnx by simp
    obtain r n' where r: "recv_ok_reply s (add_sent n s (to_string ?cmd)) = (r, n')"
      by (cases "recv_ok_reply s (add_sent n s (to_string ?cmd))")
    have sn: "sent (n' fd) = sent (add_sent n s (to_string ?cmd) fd)"
      using recv_ok_reply_sent [of s "add_sent n s (to_string ?cmd)" fd] r by simp
    have "snd (msetnx c keys vals n) = n'"
      using l assms(2,4) Msetnx r
      by (cases r) (simp_all add: msetnx_def io_bind_def io_lift_def send_ok io_return_def io_throw_def)
    then show ?thesis using Msetnx c sn by (simp add: split_beta)
  qed
qed

subsection \<open>The operations on several keys\<close>

text \<open>
  C7, as amended. The operations that name several keys, on a client whose router resolves
  each of the keys named, fall into two groups.

  The first group compares the sockets of its keys before it sends anything: \<^verbatim>\<open>rename\<close>,
  \<^verbatim>\<open>renamenx\<close>, \<^verbatim>\<open>smove\<close>, the \<^verbatim>\<open>blpop\<close> on a key vector, \<^verbatim>\<open>sinter\<close>, \<^verbatim>\<open>sunion\<close>, \<^verbatim>\<open>sdiff\<close>, their
  \<^verbatim>\<open>store\<close> variants, \<^verbatim>\<open>zunionstore\<close> and \<^verbatim>\<open>zinterstore\<close> (the calls \<open>call\<close>), and, through
  their call of \<^verbatim>\<open>get_socket(keys)\<close>, \<^verbatim>\<open>mset\<close> and \<^verbatim>\<open>msetnx\<close> on a key vector and a value vector
  of the same length (the calls \<open>kv\<close>). When two of the keys resolve to different
  connections, the call throws a \<^verbatim>\<open>std::runtime_error\<close> with one of the cluster-mode
  messages and the network is exactly as before: nothing was written or read on any
  socket. When all keys resolve to the socket \<open>s\<close>, the assertions of the call hold (for
  \<open>kv\<close>: there is a key) and \<open>s\<close> accepts writes, the command of the call is appended to
  what was sent on \<open>s\<close>, and nothing is sent on any other socket.

  The second group routes every key on its own: \<^verbatim>\<open>mget\<close>, \<^verbatim>\<open>mset\<close> on a vector of pairs and
  \<^verbatim>\<open>msetex\<close> (the calls \<open>pk\<close>). Such a call is never rejected with a cluster-mode error,
  wherever its keys live; when the sockets accept writes, every socket that one of the
  keys resolves to is sent one command naming the keys that resolve to it, and the other
  sockets are sent nothing.
\<close>

theorem multi_key_operations:
  assumes "\<forall>k\<in>set (call_keys call). \<exists>s. get_socket c k = Inr s"
    and "\<forall>k\<in>set (key_value_keys kv). \<exists>s. get_socket c k = Inr s"
    and "\<forall>k\<in>set (per_key_keys pk). \<exists>s. get_socket c k = Inr s"
  shows "(a \<in> set (call_keys call) \<and> b \<in> set (call_keys call)
            \<and> get_socket c a \<noteq> get_socket c b \<longrightarrow>
          cross_shard (fst (run_call max_size c call n)) \<and> snd (run_call max_size c call n) = n)
       \<and> (call_asserts call \<and> (\<forall>k\<in>set (call_keys call). get_socket c k = Inr s)
            \<and> wr_err (n s) = None \<longrightarrow>
          sent (snd (run_call max_size c call n) fd) =
            (if fd = s then sent (n s) @ to_string (call_cmd call) else sent (n fd)))
       \<and> (length (key_value_keys kv) = length (key_value_vals kv)
            \<and> a \<in> set (key_value_keys kv) \<and> b \<in> set (key_value_keys kv)
            \<and> get_socket c a \<noteq> get_socket c b \<longrightarrow>
          cross_shard (fst (run_key_value c kv n)) \<and> snd (run_key_value c kv n) = n)
       \<and> (length (key_value_keys kv) = length (key_value_vals kv) \<and> key_value_keys kv \<noteq> []
            \<and> (\<forall>k\<in>set (key_value_keys kv). get_socket c k = Inr s) \<and> wr_err (n s) = None \<longrightarrow>
          sent (snd (run_key_value c kv n) fd) =
            (if fd = s then sent (n s) @ to_string (key_value_cmd kv) else sent (n fd)))
       \<and> \<not> cross_shard (fst (run_per_key max_size c pk n))
       \<and> ((\<forall>fd. wr_err (n fd) = None) \<longrightarrow>
          sent (snd (run_per_key max_size c pk n) fd) = sent (n fd) @ per_key_wire c pk fd)"
  using assms run_call_rejects [of call c a b max_size n] run_call_sends [of call c s n max_size fd]
    run_key_value_rejects [of kv c a b n] run_key_value_sends [of kv c s n fd]
    run_per_key_not_rejected [of max_size c pk n] run_per_key_sends [of pk c n max_size fd]
  by blast

theorem multi_key_operations_witness:
  "cross_shard (fst (run_call (2 ^ 58) cluster_client (Rename ''a'' ''bb'') (quiet_net [])))
   \<and> snd (run_call (2 ^ 58) cluster_client (Rename ''a'' ''bb'') (quiet_net [])) = quiet_net []
   \<and> cross_shard (fst (run_call (2 ^ 58) cluster_client (Sinterstore ''dd'' [''bb'', ''a'']) (quiet_net [])))
   \<and> snd (run_call (2 ^ 58) cluster_client (Sinterstore ''dd'' [''bb'', ''a'']) (quiet_net [])) = quiet_net []
   \<and> sent (snd (run_call (2 ^ 58) cluster_client (Sinterstore ''dd'' [''bb'', ''cccc'']) (quiet_net [])) 3)
       = to_string (store_cmd ''SINTERSTORE'' ''dd'' [''bb'', ''cccc''])
   \<and> sent (snd (run_call (2 ^ 58) cluster_client (Sinterstore ''dd'' [''bb'', ''cccc'']) (quiet_net [])) 4)
       = []
   \<and> cross_shard (fst (run_key_value cluster_client (Msetnx [''a'', ''bb''] [''1'', ''2'']) (quiet_net [])))
   \<and> snd (run_key_value cluster_client (Msetnx [''a'', ''bb''] [''1'', ''2'']) (quiet_net [])) = quiet_net []
   \<and> sent (snd (run_key_value cluster_client (Mset [''bb'', ''dd''] [''1'', ''2'']) (quiet_net [])) 3)
       = to_string (shl (shl (shl (shl (makecmd ''MSET'') ''bb'') ''1'') ''dd'') ''2'')
   \<and> sent (snd (run_key_value cluster_client (Mset [''bb'', ''dd''] [''1'', ''2'']) (quiet_net [])) 4)
       = []
   \<and> \<not> cross_shard (fst (run_per_key (2 ^ 58) cluster_client
                            (Msetex [(''a'', ''1''), (''bb'', ''2''), (''dd'', ''3'')] 60) (quiet_net [])))
   \<and> sent (snd (run_per_key (2 ^ 58) cluster_client
                   (Msetex [(''a'', ''1''), (''bb'', ''2''), (''dd'', ''3'')] 60) (quiet_net [])) 3)
       = to_string (shl (shl (shl (shl (makecmd ''MSET'') ''bb'') ''2'') ''dd'') ''3'')
         @ to_string (shl_int (shl (makecmd ''EXPIRE'') ''bb'') 60)
         @ to_string (shl_int (shl (makecmd ''EXPIRE'') ''dd'') 60)
   \<and> sent (snd (run_per_key (2 ^ 58) cluster_client
                   (Msetex [(''a'', ''1''), (''bb'', ''2''), (''dd'', ''3'')] 60) (quiet_net [])) 4)
       = to_string (shl (shl (makecmd ''MSET'') ''a'') ''1'')
         @ to_string (shl_int (shl (makecmd ''EXPIRE'') ''a'') 60)"
proof -
  have r: "get_socket cluster_client ''a'' = Inr 4" "get_socket cluster_client ''bb'' = Inr 3"
    "get_socket cluster_client ''dd'' = Inr 3" "get_socket cluster_client ''cccc'' = Inr 3"
    by (simp_all add: get_socket_def cluster_client_def default_hasher_def Let_def mod_Suc)
  have 1: "cross_shard (fst (run_call (2 ^ 58) cluster_client (Rename ''a'' ''bb'') (quiet_net [])))
     \<and> snd (run_call (2 ^ 58) cluster_client (Rename ''a'' ''bb'') (quiet_net [])) = quiet_net []"
    using multi_key_operations [where max_size = "2 ^ 58" and c = cluster_client and call = "Rename ''a'' ''bb''"
        and kv = "Mset [] []" and pk = "Mget []"
        and a = "''a''" and b = "''bb''" and n = "quiet_net []" and s = 3 and fd = 3] r
    by simp
  have 2: "cross_shard (fst (run_call (2 ^ 58) cluster_client (Sinterstore ''dd'' [''bb'', ''a'']) (quiet_net [])))
     \<and> snd (run_call (2 ^ 58) cluster_client (Sinterstore ''dd'' [''bb'', ''a'']) (quiet_net [])) = quiet_net []"
    using multi_key_operations [where max_size = "2 ^ 58" and c = cluster_client
        and call = "Sinterstore ''dd'' [''bb'', ''a'']" and kv = "Mset [] []" and pk = "Mget []"
        and a = "''a''" and b = "''bb''" and n = "quiet_net []" and s = 3 and fd = 3] r
    by simp
  have 3: "sent (snd (run_call (2 ^ 58) cluster_client (Sinterstore ''dd'' [''bb'', ''cccc'']) (quiet_net [])) 3)
       = to_string (store_cmd ''SINTERSTORE'' ''dd'' [''bb'', ''cccc''])"
    using multi_key_operations [where max_size = "2 ^ 58" and c = cluster_client
        and call = "Sinterstore ''dd'' [''bb'', ''cccc'']" and kv = "Mset [] []" and pk = "Mget []"
        and a = "''dd''" and b = "''bb''" and n = "quiet_net []" and s = 3 and fd = 3] r
    by (simp add: quiet_net_def)
  have 4: "sent (snd (run_call (2 ^ 58) cluster_client (Sinterstore ''dd'' [''bb'', ''cccc'']) (quiet_net [])) 4)
       = []"
    using multi_key_operations [where max_size = "2 ^ 58" and c = cluster_client
        and call = "Sinterstore ''dd'' [''bb'', ''cccc'']" and kv = "Mset [] []" and pk = "Mget []"
        and a = "''dd''" and b = "''bb''" and n = "quiet_net []" and s = 3 and fd = 4] r
    by (simp add: quiet_net_def)
  have 5: "cross_shard (fst (run_key_value cluster_client (Msetnx [''a'', ''bb''] [''1'', ''2'']) (quiet_net [])))
     \<and> snd (run_key_value cluster_client (Msetnx [''a'', ''bb''] [''1'', ''2'']) (quiet_net [])) = quiet_net []"
    using multi_key_operations [where max_size = "2 ^ 58" and c = cluster_client
        and call = "Rename ''a'' ''bb''" and kv = "Msetnx [''a'', ''bb''] [''1'', ''2'']" and pk = "Mget []"
        and a = "''a''" and b = "''bb''" and n = "quiet_net []" and s = 3 and fd = 3] r
    by simp
  have 6: "sent (snd (run_key_value cluster_client (Mset [''bb'', ''dd''] [''1'', ''2'']) (quiet_net [])) 3)
       = to_string (shl (shl (shl (shl (makecmd ''MSET'') ''bb'') ''1'') ''dd'') ''2'')"
    using multi_key_operations [where max_size = "2 ^ 58" and c = cluster_client
        and call = "Rename ''a'' ''bb''" and kv = "Mset [''bb'', ''dd''] [''1'', ''2'']" and pk = "Mget []"
        and a = "''a''" and b = "''bb''" and n = "quiet_net []" and s = 3 and fd = 3] r
    by (simp add: quiet_net_def)
  have 7: "sent (snd (run_key_value cluster_client (Mset [''bb'', ''dd''] [''1'', ''2'']) (quiet_net [])) 4)
       = []"
    using multi_key_operations [where max_size = "2 ^ 58" and c = cluster_client
        and call = "Rename ''a'' ''bb''" and kv = "Mset [''bb'', ''dd''] [''1'', ''2'']" and pk = "Mget []"
        and a = "''a''" and b = "''bb''" and n = "quiet_net []" and s = 3 and fd = 4] r
    by (simp add: quiet_net_def)
  have 8: "\<not> cross_shard (fst (run_per_key (2 ^ 58) cluster_client
                            (Msetex [(''a'', ''1''), (''bb'', ''2''), (''dd'', ''3'')] 60) (quiet_net [])))
     \<and> sent (snd (run_per_key (2 ^ 58) cluster_client
                   (Msetex [(''a'', ''1''), (''bb'', ''2''), (''dd'', ''3'')] 60) (quiet_net [])) 3)
       = to_string (shl (shl (shl (shl (makecmd ''MSET'') ''bb'') ''2'') ''dd'') ''3'')
         @ to_string (shl_int (shl (makecmd ''EXPIRE'') ''bb'') 60)
         @ to_string (shl_int (shl (makecmd ''EXPIRE'') ''dd'') 60)"
    using multi_key_operations [where max_size = "2 ^ 58" and c = cluster_client
        and call = "Rename ''a'' ''bb''" and kv = "Mset [] []"
        and pk = "Msetex [(''a'', ''1''), (''bb'', ''2''), (''dd'', ''3'')] 60"
        and a = "''a''" and b = "''bb''" and n = "quiet_net []" and s = 3 and fd = 3] r
    by (simp add: quiet_net_def routed_to_def)
  have 9: "sent (snd (run_per_key (2 ^ 58) cluster_client
                   (Msetex [(''a'', ''1''), (''bb'', ''2''), (''dd'', ''3'')] 60) (quiet_net [])) 4)
       = to_string (shl (shl (makecmd ''MSET'') ''a'') ''1'')
         @ to_string (shl_int (shl (makecmd ''EXPIRE'') ''a'') 60)"
    using multi_key_operations [where max_size = "2 ^ 58" and c = cluster_client
        and call = "Rename ''a'' ''bb''" and kv = "Mset [] []"
        and pk = "Msetex [(''a'', ''1''), (''bb'', ''2''), (''dd'', ''3'')] 60"
        and a = "''a''" and b = "''bb''" and n = "quiet_net []" and s = 3 and fd = 4] r
    by (simp add: quiet_net_def routed_to_def)
  from 1 2 3 4 5 6 7 8 9 show ?thesis by blast
qed

text \<open>
  C7 as the specification has it, for every multi-key operation, fails for the second
  group. On the two-connection example client the keys \<open>a\<close> and \<open>bb\<close> live on different
  connections, and \<^verbatim>\<open>mset\<close> on the pairs \<open>(a, 1)\<close>, \<open>(bb, 2)\<close> is not rejected: it sends
  \<^verbatim>\<open>MSET bb 2\<close> on the first connection and \<^verbatim>\<open>MSET a 1\<close> on the second, reads the two status
  replies and returns. \<^verbatim>\<open>mget\<close> of the two keys likewise sends one \<^verbatim>\<open>MGET\<close> on each
  connection.
\<close>

theorem multi_key_per_key_counterexample:
  "get_socket cluster_client ''a'' \<noteq> get_socket cluster_client ''bb''
   \<and> fst (run_per_key (2 ^ 58) cluster_client (Mset_pairs [(''a'', ''1''), (''bb'', ''2'')])
            (quiet_net [''+OK'' @ [CHR 0x0D, CHR 0x0A]])) = None
   \<and> sent (snd (run_per_key (2 ^ 58) cluster_client (Mset_pairs [(''a'', ''1''), (''bb'', ''2'')])
                  (quiet_net [''+OK'' @ [CHR 0x0D, CHR 0x0A]])) 3)
       = to_string (shl (shl (makecmd ''MSET'') ''bb'') ''2'')
   \<and> sent (snd (run_per_key (2 ^ 58) cluster_client (Mset_pairs [(''a'', ''1''), (''bb'', ''2'')])
                  (quiet_net [''+OK'' @ [CHR 0x0D, CHR 0x0A]])) 4)
       = to_string (shl (shl (makecmd ''MSET'') ''a'') ''1'')
   \<and> \<not> cross_shard (fst (run_per_key (2 ^ 58) cluster_client (Mget [''a'', ''bb'']) (quiet_net [])))
   \<and> sent (snd (run_per_key (2 ^ 58) cluster_client (Mget [''a'', ''bb'']) (quiet_net [])) 3)
       = to_string (shl (makecmd ''MGET'') ''bb'')
   \<and> sent (snd (run_per_key (2 ^ 58) cluster_client (Mget [''a'', ''bb'']) (quiet_net [])) 4)
       = to_string (shl (makecmd ''MGET'') ''a'')"
proof -
  let ?n = "quiet_net [''+OK'' @ [CHR 0x0D, CHR 0x0A]]"
  let ?kvs = "[(''a'', ''1''), (''bb'', ''2'')]"
  have r: "get_socket cluster_client ''a'' = Inr 4" "get_socket cluster_client ''bb'' = Inr 3"
    by (simp_all add: get_socket_def cluster_client_def default_hasher_def Let_def mod_Suc)
  have 0: "get_socket cluster_client ''a'' \<noteq> get_socket cluster_client ''bb''"
    using r by simp
  have l: "per_key_loop cluster_client (map fst ?kvs) (makecmd ''MSET'')
             (\<lambda>i m. shl (shl m (fst (?kvs ! i))) (snd (?kvs ! i))) 0 [] =
      Inr [(3, shl (shl (makecmd ''MSET'') ''bb'') ''2''), (4, shl (shl (makecmd ''MSET'') ''a'') ''1'')]"
    using r by (simp add: per_key_loop.simps map_entry_def)
  let ?n1 = "add_sent ?n 3 (to_string (shl (shl (makecmd ''MSET'') ''bb'') ''2''))"
  let ?n2 = "add_sent ?n1 4 (to_string (shl (shl (makecmd ''MSET'') ''a'') ''1''))"
  have s: "send_all [(3, shl (shl (makecmd ''MSET'') ''bb'') ''2''),
                     (4, shl (shl (makecmd ''MSET'') ''a'') ''1'')] ?n = (Inr (), ?n2)"
    by (simp add: io_bind_def send_ok io_return_def quiet_net_def)
  obtain q3 where k3: "recv_ok_reply 3 ?n2 = (Inr (), set_rcvq ?n2 3 q3)"
    using recv_ok_reply_status [where sock = 3 and n = ?n2 and st = "''OK''" and rest = "[]"]
    by (auto simp: quiet_net_def delivered_def)
  let ?n3 = "set_rcvq ?n2 3 q3"
  obtain q4 where k4: "recv_ok_reply 4 ?n3 = (Inr (), set_rcvq ?n3 4 q4)"
    using recv_ok_reply_status [where sock = 4 and n = ?n3 and st = "''OK''" and rest = "[]"]
    by (auto simp: quiet_net_def delivered_def set_rcvq_other)
  have "mset_pairs cluster_client ?kvs ?n = (Inr (), set_rcvq ?n3 4 q4)"
    using l s k3 k4 by (simp add: mset_pairs_def io_bind_def io_lift_def io_return_def)
  then have 1: "fst (run_per_key (2 ^ 58) cluster_client (Mset_pairs ?kvs) ?n) = None"
    and 2: "sent (snd (run_per_key (2 ^ 58) cluster_client (Mset_pairs ?kvs) ?n) 3)
       = to_string (shl (shl (makecmd ''MSET'') ''bb'') ''2'')"
    and 3: "sent (snd (run_per_key (2 ^ 58) cluster_client (Mset_pairs ?kvs) ?n) 4)
       = to_string (shl (shl (makecmd ''MSET'') ''a'') ''1'')"
    by (simp_all add: quiet_net_def thrown_def)
  have 4: "\<not> cross_shard (fst (run_per_key (2 ^ 58) cluster_client (Mget [''a'', ''bb'']) (quiet_net [])))"
    by (rule run_per_key_not_rejected)
  have 5: "sent (snd (run_per_key (2 ^ 58) cluster_client (Mget [''a'', ''bb'']) (quiet_net [])) 3)
       = to_string (shl (makecmd ''MGET'') ''bb'')"
    using run_per_key_sends [of "Mget [''a'', ''bb'']" cluster_client "quiet_net []" "2 ^ 58" 3] r
    by (simp add: quiet_net_def)
  have 6: "sent (snd (run_per_key (2 ^ 58) cluster_client (Mget [''a'', ''bb'']) (quiet_net [])) 4)
       = to_string (shl (makecmd ''MGET'') ''a'')"
    using run_per_key_sends [of "Mget [''a'', ''bb'']" cluster_client "quiet_net []" "2 ^ 58" 4] r
    by (simp add: quiet_net_def)
  from 0 1 2 3 4 5 6 show ?thesis by blast
qed

subsection \<open>The default strategy resolves every key\<close>

lemma default_hasher_resolves:
  assumes "connections c \<noteq> []" and "hasher c = default_hasher boost_hash"
  shows "\<exists>s. get_socket c k = Inr s"
proof -
  have "boost_hash k mod length (connections c) < length (connections c)"
    using assms(1) by (intro mod_less_divisor) simp
  then show ?thesis
    using assms(2) by (simp add: get_socket_def Let_def default_hasher_def)
qed

end
